theory Spec2Isabelle
  imports Main "HOL-Library.Sublist"
begin

section \<open>Python exceptions, and computations that mutate state and may raise\<close>

text \<open>
  \<open>Exception cls msg\<close> is an instance of a subclass of Python's \<open>Exception\<close>, with the
  name of its class and the text \<open>str(e)\<close>. \<open>KeyboardInterrupt\<close> derives from
  \<open>BaseException\<close> only, so an \<open>except Exception\<close> clause does not catch it.
\<close>

datatype pyexc = Exception string string | KeyboardInterrupt

text \<open>
  A method is a function from the state before the call to its result (a value, or the
  exception raised) and the state after it. The mutations made before an exception is
  raised stay made.
\<close>

type_synonym ('a, 's) py = "'s \<Rightarrow> (pyexc + 'a) \<times> 's"

definition ret :: "'a \<Rightarrow> ('a, 's) py" where
  "ret x = (\<lambda>s. (Inr x, s))"

definition raise :: "pyexc \<Rightarrow> ('a, 's) py" where
  "raise e = (\<lambda>s. (Inl e, s))"

definition bnd :: "('a, 's) py \<Rightarrow> ('a \<Rightarrow> ('b, 's) py) \<Rightarrow> ('b, 's) py" where
  "bnd m f = (\<lambda>s. case m s of (Inl e, s') \<Rightarrow> (Inl e, s') | (Inr x, s') \<Rightarrow> f x s')"

text \<open>\<open>try: m except Exception as e: h\<close>, the handler receiving the class and \<open>str(e)\<close>.\<close>

definition try_except :: "('a, 's) py \<Rightarrow> (string \<Rightarrow> string \<Rightarrow> ('a, 's) py) \<Rightarrow> ('a, 's) py" where
  "try_except m h =
     (\<lambda>s. case m s of
            (Inl (Exception cls msg), s') \<Rightarrow> h cls msg s'
          | (Inl KeyboardInterrupt, s') \<Rightarrow> (Inl KeyboardInterrupt, s')
          | (Inr x, s') \<Rightarrow> (Inr x, s'))"

section \<open>Strings\<close>

text \<open>
  Texts are modelled over the characters U+0000 to U+00FF, as \<open>string\<close>. On these
  \<open>str.upper\<close> gives for each character its uppercase mapping, which can lie outside
  that range (U+00B5 becomes U+039C, U+00FF becomes U+0178) and can be two characters
  for one (U+00DF, the sharp s, becomes "SS"); the small letters a to z and U+00E0 to
  U+00FE, U+00F7 apart, move down by 32, and every other character stays as it is. So an
  uppercased text is a list of code points, and \<open>code_points\<close> gives the code points of
  a text as it is.
\<close>

type_synonym codepoint = nat

definition code_points :: "string \<Rightarrow> codepoint list" where
  "code_points s = map of_char s"

definition upper_char :: "char \<Rightarrow> codepoint list" where
  "upper_char c =
     (let n = of_char c in
      if 0x61 \<le> n \<and> n \<le> 0x7A then [n - 0x20]
      else if n = 0xB5 then [0x39C]
      else if n = 0xDF then [0x53, 0x53]
      else if 0xE0 \<le> n \<and> n \<le> 0xFE \<and> n \<noteq> 0xF7 then [n - 0x20]
      else if n = 0xFF then [0x178]
      else [n])"

definition upper :: "string \<Rightarrow> codepoint list" where
  "upper s = concat (map upper_char s)"

text \<open>\<open>str_contains s sub\<close> is Python's \<open>sub in s\<close> on two strings.\<close>

fun str_contains :: "'a list \<Rightarrow> 'a list \<Rightarrow> bool" where
  "str_contains [] sub = (sub = [])"
| "str_contains (c # cs) sub = (prefix sub (c # cs) \<or> str_contains cs sub)"

text \<open>\<open>str(n)\<close> for an integer, as an f-string renders it.\<close>

fun str_nat :: "nat \<Rightarrow> string" where
  "str_nat n =
     (if n < 10 then [''0123456789'' ! n]
      else str_nat (n div 10) @ [''0123456789'' ! (n mod 10)])"

definition str_int :: "int \<Rightarrow> string" where
  "str_int i = (if i < 0 then ''-'' @ str_nat (nat (- i)) else str_nat (nat i))"

section \<open>Data model\<close>

text \<open>JSON-like values: tool arguments, tool results and tool declarations.\<close>

datatype json =
    JNull
  | JBool bool
  | JInt int
  | JStr string
  | JList "json list"
  | JObj "(string \<times> json) list"

type_synonym kwargs = "(string \<times> json) list"

text \<open>
  A content part is \<open>{"type": "text", "text": t}\<close> or
  \<open>{"type": "image", "source": {"type": ty, "media_type": mt, "data": d}}\<close>.
  The content of a message is one string or a list of parts.
\<close>

datatype part = TextPart string | ImagePart string string string

datatype payload = Text string | Parts "part list"

record turn =
  role :: string
  content :: payload

text \<open>
  What \<open>chat_via_client\<close> returns is one of two shapes. The backend library returns a
  response object: its \<open>message\<close> has the assistant's text and the optional list of
  tool calls, each with \<open>function.name\<close> and \<open>function.arguments\<close>; the object can be
  read by attribute and by subscript. The \<open>except\<close> branch of the adapter returns a
  plain \<open>dict\<close> of \<open>dict\<close>s of strings, which can be read by subscript only.
  The assistant's text of a response object is a string: a response whose \<open>content\<close>
  is \<open>None\<close> is not among the responses considered here.
\<close>

record tool_call =
  fn_name :: string
  fn_arguments :: kwargs

record message =
  msg_content :: string
  tool_calls :: "tool_call list option"

datatype response =
    ChatResponse message
  | Dict "(string \<times> (string \<times> string) list) list"

text \<open>One entry of the executor's result list: \<open>tool\<close>, \<open>args\<close> and \<open>result\<close> or \<open>error\<close>.\<close>

datatype 'r outcome = Result 'r | Error string

record 'r tool_result =
  tool :: string
  args :: kwargs
  outcome :: "'r outcome"

record image =
  img_width :: int
  img_height :: int
  img_pixels :: "nat list"

text \<open>
  The emulator and the model backend are collaborators outside this code. \<open>'w\<close> is their
  state; each of their operations may change it and may raise. \<open>emu_get_coordinates\<close>
  and \<open>emu_get_location\<close> give the text that the f-string of the user message shows
  for the value; \<open>emu_press_buttons\<close> takes the keyword arguments of the call. The
  image library (resizing, PNG and base64 encoding) is taken as two functions.
\<close>

record 'w collaborators =
  emu_initialize :: "(unit, 'w) py"
  emu_get_screenshot :: "(image, 'w) py"
  emu_get_coordinates :: "(string, 'w) py"
  emu_get_location :: "(string, 'w) py"
  emu_press_buttons :: "kwargs \<Rightarrow> (json, 'w) py"
  emu_stop :: "(unit, 'w) py"
  backend_chat :: "turn list \<Rightarrow> json list option \<Rightarrow> (message, 'w) py"
  resize_nearest :: "image \<Rightarrow> int \<times> int \<Rightarrow> image"
  png_base64 :: "image \<Rightarrow> string"

text \<open>The calls made on the collaborators, in the order they are made.\<close>

datatype call =
    EmuInitialize
  | EmuGetScreenshot
  | EmuGetCoordinates
  | EmuGetLocation
  | EmuPressButtons kwargs
  | EmuStop
  | BackendChat "turn list" "json list option"

text \<open>
  \<open>SimpleAgent\<close>. Python lists are objects that are mutated in place and can be shared,
  so the lists of messages live in a store: \<open>message_history\<close> is the address of the
  list the attribute refers to, \<open>heap\<close> gives the elements of every list, and
  \<open>next_addr\<close> is the address the next new list receives.
\<close>

type_synonym addr = nat

record 'w agent =
  world :: 'w
  calls :: "call list"
  running :: bool
  max_history :: int
  message_history :: addr
  heap :: "addr \<Rightarrow> turn list"
  next_addr :: addr

definition history :: "'w agent \<Rightarrow> turn list" where
  "history s = heap s (message_history s)"

text \<open>Every list that is referred to has been allocated.\<close>

definition wf_agent :: "'w agent \<Rightarrow> bool" where
  "wf_agent s = (message_history s < next_addr s)"

definition new_list :: "turn list \<Rightarrow> (addr, 'w agent) py" where
  "new_list xs =
     (\<lambda>s. (Inr (next_addr s),
            s\<lparr>heap := (heap s)(next_addr s := xs), next_addr := Suc (next_addr s)\<rparr>))"

definition list_append :: "addr \<Rightarrow> turn \<Rightarrow> (unit, 'w agent) py" where
  "list_append a x = (\<lambda>s. (Inr (), s\<lparr>heap := (heap s)(a := heap s a @ [x])\<rparr>))"

definition collab_call :: "call \<Rightarrow> ('a, 'w) py \<Rightarrow> ('a, 'w agent) py" where
  "collab_call c operation =
     (\<lambda>s. case operation (world s) of
            (r, w') \<Rightarrow> (r, s\<lparr>world := w', calls := calls s @ [c]\<rparr>))"

section \<open>config.py\<close>

definition newline :: string where
  "newline = [CHR 0x0A]"

definition SYSTEM_PROMPT :: string where
  \<open>SYSTEM_PROMPT =
     ''You are playing Pokemon Red. You can see the game screen and control the game by executing emulator commands.''
     @ newline @ newline @
     ''Your goal is to play through Pokemon Red and eventually defeat the Elite Four. Make decisions based on what you see on the screen.''
     @ newline @ newline @
     ''Before each action, explain your reasoning briefly, then use the emulator tool to execute your chosen commands.''
     @ newline @ newline @
     ''The conversation history may occasionally be summarized to save context space. If you see a message labeled "CONVERSATION HISTORY SUMMARY", this contains the key information about your progress so far. Use this information to maintain continuity in your gameplay.''\<close>

definition SUMMARY_PROMPT :: string where
  \<open>SUMMARY_PROMPT =
     ''I need you to create a detailed summary of our conversation history up to this point. This summary will replace the full conversation history to manage the context window.''
     @ newline @ newline @
     ''Please include:'' @ newline @
     ''1. Key game events and milestones you've reached'' @ newline @
     ''2. Important decisions you've made'' @ newline @
     ''3. Current objectives or goals you're working toward'' @ newline @
     ''4. Your current location and Pok'' @ [CHR 0xE9] @ ''mon team status'' @ newline @
     ''5. Any strategies or plans you've mentioned'' @ newline @ newline @
     ''The summary should be comprehensive enough that you can continue gameplay without losing important context about what has happened so far.''\<close>

definition USE_NAVIGATOR :: bool where
  "USE_NAVIGATOR = False"

section \<open>agent.py: constants\<close>

definition MAX_HISTORY :: int where
  "MAX_HISTORY = 10"

definition press_buttons_tool :: json where
  \<open>press_buttons_tool =
     JObj [
       (''name'', JStr ''press_buttons''),
       (''description'', JStr ''Press a sequence of buttons on the Game Boy.''),
       (''input_schema'', JObj [
          (''type'', JStr ''object''),
          (''properties'', JObj [
             (''buttons'', JObj [
                (''type'', JStr ''array''),
                (''items'', JObj [
                   (''type'', JStr ''string''),
                   (''enum'', JList (map JStr
                      [''a'', ''b'', ''start'', ''select'', ''up'', ''down'', ''left'', ''right'']))]),
                (''description'', JStr (''List of buttons to press in sequence. Valid buttons: 'a', 'b', 'start', 'select', 'up', 'down', 'left', 'right'' @ [CHR 0x27]))]),
             (''wait'', JObj [
                (''type'', JStr ''boolean''),
                (''description'', JStr ''Whether to wait for a brief period after pressing each button. Defaults to true.'')])]),
          (''required'', JList [JStr ''buttons''])])]\<close>

definition navigate_to_tool :: json where
  \<open>navigate_to_tool =
     JObj [
       (''name'', JStr ''navigate_to''),
       (''description'', JStr ''Automatically navigate to a position on the map grid. The screen is divided into a 9x10 grid, with the top-left corner as (0, 0). This tool is only available in the overworld.''),
       (''input_schema'', JObj [
          (''type'', JStr ''object''),
          (''properties'', JObj [
             (''row'', JObj [
                (''type'', JStr ''integer''),
                (''description'', JStr ''The row coordinate to navigate to (0-8).'')]),
             (''col'', JObj [
                (''type'', JStr ''integer''),
                (''description'', JStr ''The column coordinate to navigate to (0-9).'')])]),
          (''required'', JList [JStr ''row'', JStr ''col''])])]\<close>

definition AVAILABLE_TOOLS :: "json list" where
  "AVAILABLE_TOOLS = [press_buttons_tool] @ (if USE_NAVIGATOR then [navigate_to_tool] else [])"

section \<open>ollama_client.py\<close>

text \<open>
  \<open>response.message\<close>: an attribute read. The response object has the attribute; a
  \<open>dict\<close> has no attribute of that name, whatever its keys are.
\<close>

definition getattr_message :: "response \<Rightarrow> pyexc + message" where
  "getattr_message response =
     (case response of
        ChatResponse m \<Rightarrow> Inr m
      | Dict d \<Rightarrow>
          Inl (Exception ''AttributeError''
                 ([CHR 0x27] @ ''dict' object has no attribute 'message'' @ [CHR 0x27])))"

text \<open>
  \<open>chat_via_client\<close>. \<open>messages\<close> is the address of the list that is sent. The model
  name and the generation options are constants of the call and are left out.
\<close>

definition chat_via_client ::
  "'w collaborators \<Rightarrow> addr \<Rightarrow> json list option \<Rightarrow> (response, 'w agent) py" where
  "chat_via_client ops messages tools =
     try_except
       (\<lambda>s. bnd (collab_call
                   (BackendChat (heap s messages)
                      (case tools of Some ts \<Rightarrow> if ts \<noteq> [] then Some ts else None | None \<Rightarrow> None))
                   (backend_chat ops (heap s messages)
                      (case tools of Some ts \<Rightarrow> if ts \<noteq> [] then Some ts else None | None \<Rightarrow> None)))
                (\<lambda>response. ret (ChatResponse response)) s)
       (\<lambda>cls e. ret (Dict [(''message'', [(''content'', ''Error: '' @ e)])]))"

text \<open>
  The loop of \<open>call_tool_from_response\<close> over the tool calls, \<open>results\<close> being the list
  built so far.
\<close>

fun tool_loop ::
  "(string \<rightharpoonup> (kwargs \<Rightarrow> ('r, 's) py)) \<Rightarrow> tool_call list \<Rightarrow> 'r tool_result list
     \<Rightarrow> ('r tool_result list, 's) py" where
  "tool_loop available_functions [] results s = (Inr results, s)"
| "tool_loop available_functions (t # rest) results s =
     (case available_functions (fn_name t) of
        Some function_to_call \<Rightarrow>
          (case function_to_call (fn_arguments t) s of
             (Inr result, s') \<Rightarrow>
               tool_loop available_functions rest
                 (results @ [\<lparr>tool = fn_name t, args = fn_arguments t, outcome = Result result\<rparr>]) s'
           | (Inl (Exception cls e), s') \<Rightarrow>
               tool_loop available_functions rest
                 (results @ [\<lparr>tool = fn_name t, args = fn_arguments t, outcome = Error e\<rparr>]) s'
           | (Inl KeyboardInterrupt, s') \<Rightarrow> (Inl KeyboardInterrupt, s'))
      | None \<Rightarrow>
          tool_loop available_functions rest
            (results @ [\<lparr>tool = fn_name t, args = fn_arguments t,
                         outcome = Error (''Function '' @ fn_name t @ '' not found'')\<rparr>]) s)"

definition call_tool_from_response ::
  "response \<Rightarrow> (string \<rightharpoonup> (kwargs \<Rightarrow> ('r, 's) py)) \<Rightarrow> ('r tool_result list, 's) py" where
  "call_tool_from_response response available_functions =
     (case getattr_message response of
        Inl e \<Rightarrow> raise e
      | Inr m \<Rightarrow>
          (case tool_calls m of
             Some tcs \<Rightarrow> if tcs \<noteq> [] then tool_loop available_functions tcs [] else ret []
           | None \<Rightarrow> ret []))"

section \<open>agent.py\<close>

definition get_screenshot_base64 :: "'w collaborators \<Rightarrow> image \<Rightarrow> int option \<Rightarrow> string" where
  "get_screenshot_base64 ops screenshot upscale =
     png_base64 ops
       (case upscale of
          Some u \<Rightarrow>
            if u \<noteq> 0 \<and> u > 1
            then resize_nearest ops screenshot (img_width screenshot * u, img_height screenshot * u)
            else screenshot
        | None \<Rightarrow> screenshot)"

text \<open>
  \<open>SimpleAgent.__init__\<close>, for collaborators in the state \<open>w\<close>: the emulator and the
  client are constructed, and the history is a new empty list.
\<close>

definition init_agent :: "'w \<Rightarrow> 'w agent" where
  "init_agent w =
     \<lparr>world = w, calls = [], running = False, max_history = MAX_HISTORY,
      message_history = 0, heap = (\<lambda>a. []), next_addr = 1\<rparr>"

text \<open>
  The lambda registered as \<open>press\<close> takes the one keyword argument \<open>button\<close>; any other
  set of keywords is a \<open>TypeError\<close> at the call. The text of that \<open>TypeError\<close> names
  the lambda and the keyword in the words of the interpreter; it is shortened here.
\<close>

definition get_available_functions ::
  "'w collaborators \<Rightarrow> (string \<rightharpoonup> (kwargs \<Rightarrow> (json, 'w agent) py))" where
  "get_available_functions ops =
     [''press_buttons'' \<mapsto> (\<lambda>kw. collab_call (EmuPressButtons kw) (emu_press_buttons ops kw)),
      ''press'' \<mapsto>
        (\<lambda>kw. case kw of
                 [(k, button)] \<Rightarrow>
                   if k = ''button''
                   then collab_call (EmuPressButtons [(''buttons'', JList [button])])
                          (emu_press_buttons ops [(''buttons'', JList [button])])
                   else raise (Exception ''TypeError'' ''<lambda>() got an unexpected keyword argument'')
               | _ \<Rightarrow> raise (Exception ''TypeError'' ''<lambda>() called with the wrong arguments''))]"

definition append_history :: "turn \<Rightarrow> (unit, 'w agent) py" where
  "append_history m = (\<lambda>s. list_append (message_history s) m s)"

definition initial_text :: string where
  "initial_text =
     ''You are playing Pok'' @ [CHR 0xE9] @ ''mon Red. What do you want to do? You can press buttons like A, B, START, SELECT, UP, DOWN, LEFT, and RIGHT.''"

definition send_initial_observation :: "'w collaborators \<Rightarrow> (unit, 'w agent) py" where
  "send_initial_observation ops =
     bnd (collab_call EmuGetScreenshot (emu_get_screenshot ops)) (\<lambda>screenshot.
     append_history
       \<lparr>role = ''user'',
        content = Parts [TextPart initial_text,
                         ImagePart ''base64'' ''image/png''
                           (get_screenshot_base64 ops screenshot (Some 2))]\<rparr>)"

text \<open>One message of the history in the shape the backend takes: its parts joined.\<close>

fun flatten_parts :: "part list \<Rightarrow> string \<Rightarrow> string" where
  "flatten_parts [] acc = acc"
| "flatten_parts (TextPart t # items) acc = flatten_parts items (acc @ t @ newline)"
| "flatten_parts (ImagePart ty mt d # items) acc =
     flatten_parts items (acc @ ''[IMAGE: Game Screenshot]'' @ newline)"

definition flatten_message :: "turn \<Rightarrow> turn" where
  "flatten_message msg =
     \<lparr>role = role msg,
      content = Text (case content msg of Parts items \<Rightarrow> flatten_parts items '''' | Text t \<Rightarrow> t)\<rparr>"

fun format_loop :: "addr \<Rightarrow> turn list \<Rightarrow> (unit, 'w agent) py" where
  "format_loop ollama_messages [] s = (Inr (), s)"
| "format_loop ollama_messages (msg # rest) s =
     (case list_append ollama_messages (flatten_message msg) s of
        (r, s') \<Rightarrow> format_loop ollama_messages rest s')"

definition format_messages_for_ollama :: "(addr, 'w agent) py" where
  "format_messages_for_ollama =
     bnd (new_list [\<lparr>role = ''system'', content = Text SYSTEM_PROMPT\<rparr>]) (\<lambda>ollama_messages.
     bnd (\<lambda>s. format_loop ollama_messages (history s) s) (\<lambda>_.
     ret ollama_messages))"

definition user_message_text :: "string \<Rightarrow> string \<Rightarrow> string" where
  "user_message_text location coordinates =
     ''Current game state:'' @ newline @ ''Location: '' @ location @ newline
     @ ''Coordinates: '' @ coordinates @ newline @ newline
     @ ''What button(s) would you like to press next?''"

definition get_next_action :: "'w collaborators \<Rightarrow> (response, 'w agent) py" where
  "get_next_action ops =
     bnd (collab_call EmuGetScreenshot (emu_get_screenshot ops)) (\<lambda>screenshot.
     bnd (collab_call EmuGetCoordinates (emu_get_coordinates ops)) (\<lambda>coordinates.
     bnd (collab_call EmuGetLocation (emu_get_location ops)) (\<lambda>location.
     bnd (append_history
            \<lparr>role = ''user'',
             content = Parts [TextPart (user_message_text location coordinates),
                              ImagePart ''base64'' ''image/png''
                                (get_screenshot_base64 ops screenshot (Some 2))]\<rparr>) (\<lambda>_.
     bnd format_messages_for_ollama (\<lambda>messages.
     chat_via_client ops messages (Some AVAILABLE_TOOLS))))))"

text \<open>
  \<open>"message" in response and "content" in response["message"]\<close>, then the subscript
  reads: every response object carries both, a \<open>dict\<close> is looked up key by key.
\<close>

definition response_content :: "response \<Rightarrow> string" where
  "response_content response =
     (case response of
        ChatResponse m \<Rightarrow> msg_content m
      | Dict d \<Rightarrow>
          (case map_of d ''message'' of
             Some md \<Rightarrow> (case map_of md ''content'' of Some c \<Rightarrow> c | None \<Rightarrow> '''')
           | None \<Rightarrow> ''''))"

definition valid_buttons :: "string list" where
  "valid_buttons = [''A'', ''B'', ''START'', ''SELECT'', ''UP'', ''DOWN'', ''LEFT'', ''RIGHT'']"

text \<open>
  The loop over \<open>valid_buttons\<close>, with the list \<open>buttons_to_press\<close> as it grows;
  \<open>txt\<close> is the uppercased content.
\<close>

fun scan_buttons :: "codepoint list \<Rightarrow> string list \<Rightarrow> string list \<Rightarrow> string list" where
  "scan_buttons txt [] buttons_to_press = buttons_to_press"
| "scan_buttons txt (button # rest) buttons_to_press =
     scan_buttons txt rest
       (if str_contains txt (code_points button) then buttons_to_press @ [button]
        else buttons_to_press)"

definition buttons_in_text :: "string \<Rightarrow> string list" where
  "buttons_in_text txt = scan_buttons (upper txt) valid_buttons []"

definition parse_and_execute_text_response ::
  "'w collaborators \<Rightarrow> string \<Rightarrow> (unit, 'w agent) py" where
  "parse_and_execute_text_response ops txt =
     (if buttons_in_text txt \<noteq> []
      then bnd (collab_call (EmuPressButtons [(''buttons'', JList (map JStr (buttons_in_text txt)))])
                  (emu_press_buttons ops [(''buttons'', JList (map JStr (buttons_in_text txt)))]))
               (\<lambda>_. ret ())
      else ret ())"

definition process_response :: "'w collaborators \<Rightarrow> response \<Rightarrow> (unit, 'w agent) py" where
  "process_response ops response =
     bnd (append_history \<lparr>role = ''assistant'', content = Text (response_content response)\<rparr>) (\<lambda>_.
     bnd (call_tool_from_response response (get_available_functions ops)) (\<lambda>results.
     if results \<noteq> [] then ret ()
     else parse_and_execute_text_response ops (response_content response)))"

text \<open>
  \<open>summarize_history\<close>, in two parts: up to the reply of the backend, and the
  assignment of the new list to \<open>self.message_history\<close>.
\<close>

definition summary_request :: "'w collaborators \<Rightarrow> (string \<times> response, 'w agent) py" where
  "summary_request ops =
     bnd (collab_call EmuGetScreenshot (emu_get_screenshot ops)) (\<lambda>screenshot.
     bnd format_messages_for_ollama (\<lambda>messages.
     bnd (list_append messages \<lparr>role = ''user'', content = Text SUMMARY_PROMPT\<rparr>) (\<lambda>_.
     bnd (chat_via_client ops messages None) (\<lambda>response.
     ret (get_screenshot_base64 ops screenshot (Some 2), response)))))"

definition summary_turn :: "int \<Rightarrow> string \<Rightarrow> string \<Rightarrow> turn" where
  "summary_turn mh summary_text screenshot_b64 =
     \<lparr>role = ''user'',
      content = Parts
        [TextPart (''CONVERSATION HISTORY SUMMARY (representing '' @ str_int mh
                   @ '' previous messages): '' @ summary_text),
         TextPart (newline @ newline @ ''Current game screenshot for reference:''),
         ImagePart ''base64'' ''image/png'' screenshot_b64,
         TextPart ''You were just asked to summarize your playthrough so far, which is the summary you see above. You may now continue playing by selecting your next action.'']\<rparr>"

definition summarize_history :: "'w collaborators \<Rightarrow> (unit, 'w agent) py" where
  "summarize_history ops =
     bnd (summary_request ops) (\<lambda>(screenshot_b64, response).
     bnd (\<lambda>s. new_list [summary_turn (max_history s) (response_content response) screenshot_b64] s)
       (\<lambda>a s. (Inr (), s\<lparr>message_history := a\<rparr>)))"

text \<open>The body of the loop of \<open>run\<close>, and the loop.\<close>

definition step_actions :: "'w collaborators \<Rightarrow> (unit, 'w agent) py" where
  "step_actions ops = bnd (get_next_action ops) (process_response ops)"

definition summarize_check :: "'w collaborators \<Rightarrow> (unit, 'w agent) py" where
  "summarize_check ops =
     (\<lambda>s. if int (length (history s)) > max_history s * 2 then summarize_history ops s
           else (Inr (), s))"

definition loop_body :: "'w collaborators \<Rightarrow> (unit, 'w agent) py" where
  "loop_body ops = bnd (step_actions ops) (\<lambda>_. summarize_check ops)"

function run_loop :: "'w collaborators \<Rightarrow> int \<Rightarrow> int \<Rightarrow> (int, 'w agent) py" where
  "run_loop ops num_steps steps_completed s =
     (if running s \<and> steps_completed < num_steps
      then (case loop_body ops s of
              (Inl e, s') \<Rightarrow> (Inl e, s')
            | (Inr u, s') \<Rightarrow> run_loop ops num_steps (steps_completed + 1) s')
      else (Inr steps_completed, s))"
  by pat_completeness auto
termination
  by (relation "measure (\<lambda>(ops, num_steps, steps_completed, s). nat (num_steps - steps_completed))")
     auto

declare run_loop.simps [simp del]

definition run_start :: "'w collaborators \<Rightarrow> (unit, 'w agent) py" where
  "run_start ops =
     bnd (collab_call EmuInitialize (emu_initialize ops)) (\<lambda>_.
     bnd (\<lambda>s. (Inr (), s\<lparr>running := True\<rparr>)) (\<lambda>_.
     send_initial_observation ops))"

definition run :: "'w collaborators \<Rightarrow> int \<Rightarrow> (int, 'w agent) py" where
  "run ops num_steps = bnd (run_start ops) (\<lambda>_. run_loop ops num_steps 0)"

definition stop :: "'w collaborators \<Rightarrow> (unit, 'w agent) py" where
  "stop ops =
     bnd (\<lambda>s. (Inr (), s\<lparr>running := False\<rparr>)) (\<lambda>_.
     collab_call EmuStop (emu_stop ops))"

section \<open>main.py\<close>

text \<open>
  \<open>try: agent.run(num_steps) except KeyboardInterrupt: ... finally: agent.stop()\<close>
  on a newly constructed agent.
\<close>

definition main :: "'w collaborators \<Rightarrow> int \<Rightarrow> 'w \<Rightarrow> (pyexc + unit) \<times> 'w agent" where
  "main ops steps w =
     (case run ops steps (init_agent w) of
        (r, s1) \<Rightarrow>
          (case stop ops s1 of
             (Inl e, s2) \<Rightarrow> (Inl e, s2)
           | (Inr u, s2) \<Rightarrow>
               (case r of
                  Inl KeyboardInterrupt \<Rightarrow> (Inr (), s2)
                | Inl (Exception cls e) \<Rightarrow> (Inl (Exception cls e), s2)
                | Inr n \<Rightarrow> (Inr (), s2))))"

section \<open>Values, predicates and collaborators used in the statements\<close>

subsection \<open>Replies and turns\<close>

text \<open>The exception of an attribute read of \<open>message\<close> on a \<open>dict\<close>.\<close>

definition attribute_error :: pyexc where
  "attribute_error =
     Exception ''AttributeError''
       ([CHR 0x27] @ ''dict' object has no attribute 'message'' @ [CHR 0x27])"

text \<open>The reply of the \<open>except\<close> branch of \<open>chat_via_client\<close> for an exception of text \<open>e\<close>.\<close>

definition error_reply :: "string \<Rightarrow> response" where
  "error_reply e = Dict [(''message'', [(''content'', ''Error: '' @ e)])]"

text \<open>\<open>tools if tools else None\<close>, and what \<open>chat_via_client\<close> makes of the backend's outcome.\<close>

definition normalize_tools :: "json list option \<Rightarrow> json list option" where
  "normalize_tools tools =
     (case tools of Some ts \<Rightarrow> if ts \<noteq> [] then Some ts else None | None \<Rightarrow> None)"

definition adapter_result :: "pyexc + message \<Rightarrow> pyexc + response" where
  "adapter_result r =
     (case r of
        Inr m \<Rightarrow> Inr (ChatResponse m)
      | Inl (Exception cls e) \<Rightarrow> Inr (error_reply e)
      | Inl KeyboardInterrupt \<Rightarrow> Inl KeyboardInterrupt)"

text \<open>
  The messages the code builds: the system message that heads every list sent to the
  backend, the summarization request, the user turn of a step and the assistant turn
  made of a reply.
\<close>

definition system_turn :: turn where
  "system_turn = \<lparr>role = ''system'', content = Text SYSTEM_PROMPT\<rparr>"

definition request_turn :: turn where
  "request_turn = \<lparr>role = ''user'', content = Text SUMMARY_PROMPT\<rparr>"

definition user_turn :: "'w collaborators \<Rightarrow> string \<Rightarrow> string \<Rightarrow> image \<Rightarrow> turn" where
  "user_turn ops location coordinates screenshot =
     \<lparr>role = ''user'',
      content = Parts [TextPart (user_message_text location coordinates),
                       ImagePart ''base64'' ''image/png''
                         (get_screenshot_base64 ops screenshot (Some 2))]\<rparr>"

definition assistant_turn :: "response \<Rightarrow> turn" where
  "assistant_turn response = \<lparr>role = ''assistant'', content = Text (response_content response)\<rparr>"

text \<open>The parts of a turn, by kind.\<close>

fun is_image :: "part \<Rightarrow> bool" where
  "is_image (ImagePart ty mt d) = True"
| "is_image (TextPart t) = False"

fun is_text :: "part \<Rightarrow> bool" where
  "is_text (TextPart t) = True"
| "is_text (ImagePart ty mt d) = False"

definition parts_of :: "turn \<Rightarrow> part list" where
  "parts_of t = (case content t of Parts ps \<Rightarrow> ps | Text txt \<Rightarrow> [])"

subsection \<open>The Text Fallback Parser, in the specification's words\<close>

text \<open>
  Following the specification's words, and without the uppercasing of the code. Two
  characters are the same ignoring case when they are equal or are the capital and the
  small form of one of the letters A to Z, the small form being 32 code points above the
  capital. A token matches at the start of a text when the text begins with as many
  characters as the token has, each the same as the token's ignoring case. A token occurs
  in a text case-insensitively when it matches at the start of the text or of what
  remains of it after some of its first characters.
\<close>

definition is_capital :: "char \<Rightarrow> bool" where
  "is_capital c = (0x41 \<le> (of_char c :: nat) \<and> (of_char c :: nat) \<le> 0x5A)"

definition small_letter :: "char \<Rightarrow> codepoint" where
  "small_letter c = (if is_capital c then of_char c + 0x20 else of_char c)"

definition same_ignoring_case :: "char \<Rightarrow> char \<Rightarrow> bool" where
  "same_ignoring_case c d = (small_letter c = small_letter d)"

fun matches_at :: "string \<Rightarrow> string \<Rightarrow> bool" where
  "matches_at [] txt = True"
| "matches_at (t # ts) [] = False"
| "matches_at (t # ts) (c # cs) = (same_ignoring_case c t \<and> matches_at ts cs)"

fun occurs_ignoring_case :: "string \<Rightarrow> string \<Rightarrow> bool" where
  "occurs_ignoring_case token [] = matches_at token []"
| "occurs_ignoring_case token (c # cs) =
     (matches_at token (c # cs) \<or> occurs_ignoring_case token cs)"

subsection \<open>Assumptions on the collaborators\<close>

text \<open>No registered tool function is interrupted: what it raises, if anything, is an \<open>Exception\<close>.\<close>

definition no_interrupt :: "(string \<rightharpoonup> (kwargs \<Rightarrow> ('r, 's) py)) \<Rightarrow> bool" where
  "no_interrupt fns = (\<forall>n g kw x. fns n = Some g \<longrightarrow> fst (g kw x) \<noteq> Inl KeyboardInterrupt)"

text \<open>
  Every call on the emulator returns; the backend answers every query; the backend
  fails on every query with some \<open>Exception\<close>.
\<close>

definition emulator_returns :: "'w collaborators \<Rightarrow> bool" where
  "emulator_returns ops =
     (\<forall>w. (\<exists>x w'. emu_initialize ops w = (Inr x, w'))
        \<and> (\<exists>x w'. emu_get_screenshot ops w = (Inr x, w'))
        \<and> (\<exists>x w'. emu_get_coordinates ops w = (Inr x, w'))
        \<and> (\<exists>x w'. emu_get_location ops w = (Inr x, w'))
        \<and> (\<forall>kw. \<exists>x w'. emu_press_buttons ops kw w = (Inr x, w')))"

definition backend_returns :: "'w collaborators \<Rightarrow> bool" where
  "backend_returns ops = (\<forall>msgs tools w. \<exists>m w'. backend_chat ops msgs tools w = (Inr m, w'))"

definition backend_fails :: "'w collaborators \<Rightarrow> bool" where
  "backend_fails ops =
     (\<forall>msgs tools w. \<exists>cls e w'. backend_chat ops msgs tools w = (Inl (Exception cls e), w'))"

definition collaborators_return :: "'w collaborators \<Rightarrow> bool" where
  "collaborators_return ops = (emulator_returns ops \<and> backend_returns ops)"

subsection \<open>The states of the loop of \<open>run\<close>\<close>

text \<open>
  \<open>loop_states ops num_steps s0 k s\<close>: in the run of \<open>run(num_steps)\<close> from the agent
  \<open>s0\<close>, the loop condition is evaluated with \<open>steps_completed = k\<close> in the state \<open>s\<close>.
  This is so after the start (\<open>k = 0\<close>) and after each body of the loop that returns.
  \<open>at_check\<close>: the state in which a step evaluates the summarization check.
\<close>

inductive loop_states ::
  "'w collaborators \<Rightarrow> int \<Rightarrow> 'w agent \<Rightarrow> int \<Rightarrow> 'w agent \<Rightarrow> bool"
  for ops num_steps s0 where
  start: "run_start ops s0 = (Inr u, s1) \<Longrightarrow> loop_states ops num_steps s0 0 s1"
| iteration:
    "loop_states ops num_steps s0 steps_completed s \<Longrightarrow> running s \<Longrightarrow>
     steps_completed < num_steps \<Longrightarrow> loop_body ops s = (Inr u, s') \<Longrightarrow>
     loop_states ops num_steps s0 (steps_completed + 1) s'"

definition at_check :: "'w collaborators \<Rightarrow> int \<Rightarrow> 'w agent \<Rightarrow> 'w agent \<Rightarrow> bool" where
  "at_check ops num_steps s0 mid =
     (\<exists>steps_completed s u.
        loop_states ops num_steps s0 steps_completed s \<and> running s
        \<and> steps_completed < num_steps \<and> step_actions ops s = (Inr u, mid))"

text \<open>The body of the loop \<open>k\<close> times in sequence, an exception ending the sequence.\<close>

fun body_iter :: "'w collaborators \<Rightarrow> nat \<Rightarrow> (unit, 'w agent) py" where
  "body_iter ops 0 s = (Inr (), s)"
| "body_iter ops (Suc k) s =
     (case loop_body ops s of
        (Inl e, s') \<Rightarrow> (Inl e, s')
      | (Inr u, s') \<Rightarrow> body_iter ops k s')"

text \<open>
  The part of the agent that the collaborators cannot touch, and the property that a
  computation leaves an observation \<open>g\<close> of the state as it was.
\<close>

definition core :: "'w agent \<Rightarrow> bool \<times> int \<times> addr \<times> (addr \<Rightarrow> turn list) \<times> addr" where
  "core s = (running s, max_history s, message_history s, heap s, next_addr s)"

definition keeps :: "('s \<Rightarrow> 'b) \<Rightarrow> ('a, 's) py \<Rightarrow> bool" where
  "keeps g m = (\<forall>s. g (snd (m s)) = g s)"

subsection \<open>Teardown\<close>

text \<open>The number of calls of the emulator's \<open>stop\<close> so far, and two calls of \<open>stop()\<close> in succession.\<close>

definition stops :: "'w agent \<Rightarrow> nat" where
  "stops s = count_list (calls s) EmuStop"

definition stop_twice :: "'w collaborators \<Rightarrow> (unit, 'w agent) py" where
  "stop_twice ops = bnd (stop ops) (\<lambda>_. stop ops)"

subsection \<open>Collaborators for concrete runs\<close>

text \<open>
  An emulator whose calls all return, with a backend given as a parameter; a backend
  that is not reachable; a backend that answers with a text and no tool call; a reply
  with two tool calls, of which only the second names a registered tool.
\<close>

definition fake_image :: image where
  "fake_image = \<lparr>img_width = 160, img_height = 144, img_pixels = []\<rparr>"

definition fake_collaborators :: "(message, unit) py \<Rightarrow> unit collaborators" where
  "fake_collaborators chat =
     \<lparr>emu_initialize = ret (),
      emu_get_screenshot = ret fake_image,
      emu_get_coordinates = ret ''(3, 4)'',
      emu_get_location = ret ''PALLET TOWN'',
      emu_press_buttons = (\<lambda>kw. ret (JList [])),
      emu_stop = ret (),
      backend_chat = (\<lambda>msgs tools. chat),
      resize_nearest = (\<lambda>img (w, h). img\<lparr>img_width := w, img_height := h\<rparr>),
      png_base64 = (\<lambda>img. ''iVBORw0KGgo='')\<rparr>"

definition backend_down :: "(message, unit) py" where
  "backend_down = raise (Exception ''ConnectionError'' ''connection refused'')"

definition backend_says :: "string \<Rightarrow> (message, unit) py" where
  "backend_says txt = ret \<lparr>msg_content = txt, tool_calls = None\<rparr>"

definition two_calls :: "tool_call list" where
  "two_calls =
     [\<lparr>fn_name = ''navigate_to'', fn_arguments = [(''row'', JInt 1), (''col'', JInt 2)]\<rparr>,
      \<lparr>fn_name = ''press_buttons'', fn_arguments = [(''buttons'', JList [JStr ''a''])]\<rparr>]"

section \<open>Strings: substring test, uppercasing and occurrence ignoring case\<close>

lemma str_contains_iff: "str_contains s sub \<longleftrightarrow> (\<exists>pre suf. s = pre @ sub @ suf)"
proof (induction s)
  case Nil
  then show ?case by auto
next
  case (Cons c cs)
  show ?case
  proof
    assume "str_contains (c # cs) sub"
    then consider "prefix sub (c # cs)" | "str_contains cs sub" by auto
    then show "\<exists>pre suf. c # cs = pre @ sub @ suf"
    proof cases
      case 1
      then obtain suf where "c # cs = sub @ suf" by (auto simp: prefix_def)
      then have "c # cs = [] @ sub @ suf" by simp
      then show ?thesis by blast
    next
      case 2
      with Cons.IH obtain pre suf where "cs = pre @ sub @ suf" by blast
      then have "c # cs = (c # pre) @ sub @ suf" by simp
      then show ?thesis by blast
    qed
  next
    assume "\<exists>pre suf. c # cs = pre @ sub @ suf"
    then obtain pre suf where e: "c # cs = pre @ sub @ suf" by blast
    show "str_contains (c # cs) sub"
    proof (cases pre)
      case Nil
      with e have "prefix sub (c # cs)" by (simp add: prefix_def)
      then show ?thesis by simp
    next
      case (Cons p ps)
      with e have "cs = ps @ sub @ suf" by simp
      with Cons.IH have "str_contains cs sub" by blast
      then show ?thesis by simp
    qed
  qed
qed

lemma matches_at_iff:
  "matches_at token s \<longleftrightarrow> (\<exists>mid suf. s = mid @ suf \<and> list_all2 same_ignoring_case mid token)"
proof (induction token s rule: matches_at.induct)
  case (1 s)
  show ?case by simp
next
  case (2 t ts)
  show ?case by (simp add: list_all2_Cons2)
next
  case (3 t ts c cs)
  show ?case
  proof
    assume "matches_at (t # ts) (c # cs)"
    then have "same_ignoring_case c t" and "matches_at ts cs" by simp_all
    with 3 obtain mid suf where "cs = mid @ suf" "list_all2 same_ignoring_case mid ts" by blast
    with \<open>same_ignoring_case c t\<close>
    have "c # cs = (c # mid) @ suf \<and> list_all2 same_ignoring_case (c # mid) (t # ts)" by simp
    then show "\<exists>mid suf. c # cs = mid @ suf \<and> list_all2 same_ignoring_case mid (t # ts)"
      by blast
  next
    assume "\<exists>mid suf. c # cs = mid @ suf \<and> list_all2 same_ignoring_case mid (t # ts)"
    then obtain mid suf where m: "c # cs = mid @ suf" "list_all2 same_ignoring_case mid (t # ts)"
      by blast
    from m(2) obtain d ds where d: "mid = d # ds" "same_ignoring_case d t"
      "list_all2 same_ignoring_case ds ts" by (auto simp: list_all2_Cons2)
    with m(1) have "c = d" "cs = ds @ suf" by simp_all
    with d 3 show "matches_at (t # ts) (c # cs)" by auto
  qed
qed

lemma occurs_ignoring_case_iff:
  "occurs_ignoring_case token s \<longleftrightarrow>
     (\<exists>pre mid suf. s = pre @ mid @ suf \<and> list_all2 same_ignoring_case mid token)"
proof (induction s)
  case Nil
  show ?case by (auto simp: matches_at_iff)
next
  case (Cons c cs)
  show ?case
  proof
    assume "occurs_ignoring_case token (c # cs)"
    then consider "matches_at token (c # cs)" | "occurs_ignoring_case token cs" by auto
    then show "\<exists>pre mid suf. c # cs = pre @ mid @ suf \<and> list_all2 same_ignoring_case mid token"
    proof cases
      case 1
      then obtain mid suf where "c # cs = [] @ mid @ suf" "list_all2 same_ignoring_case mid token"
        by (auto simp: matches_at_iff)
      then show ?thesis by blast
    next
      case 2
      with Cons.IH obtain pre mid suf where "cs = pre @ mid @ suf"
        "list_all2 same_ignoring_case mid token" by blast
      then have "c # cs = (c # pre) @ mid @ suf \<and> list_all2 same_ignoring_case mid token" by simp
      then show ?thesis by blast
    qed
  next
    assume "\<exists>pre mid suf. c # cs = pre @ mid @ suf \<and> list_all2 same_ignoring_case mid token"
    then obtain pre mid suf where e: "c # cs = pre @ mid @ suf"
      "list_all2 same_ignoring_case mid token" by blast
    show "occurs_ignoring_case token (c # cs)"
    proof (cases pre)
      case Nil
      with e have "matches_at token (c # cs)" unfolding matches_at_iff by auto
      then show ?thesis by simp
    next
      case (Cons p ps)
      with e have "cs = ps @ mid @ suf" by simp
      with e(2) Cons.IH have "occurs_ignoring_case token cs" by blast
      then show ?thesis by simp
    qed
  qed
qed

lemma upper_char_same:
  "is_capital t \<Longrightarrow> same_ignoring_case c t \<Longrightarrow> upper_char c = [of_char t]"
  by (auto simp: same_ignoring_case_def small_letter_def is_capital_def upper_char_def Let_def
      split: if_splits)

lemma same_upper_char:
  "is_capital t \<Longrightarrow> upper_char c = [of_char t] \<Longrightarrow> same_ignoring_case c t"
  by (auto simp: same_ignoring_case_def small_letter_def is_capital_def upper_char_def Let_def
      split: if_splits)

lemma upper_append: "upper (a @ b) = upper a @ upper b"
  by (simp add: upper_def)

lemma upper_matching:
  "list_all2 same_ignoring_case mid token \<Longrightarrow> \<forall>t \<in> set token. is_capital t \<Longrightarrow>
   upper mid = code_points token"
proof (induction rule: list_all2_induct)
  case Nil
  show ?case by (simp add: upper_def code_points_def)
next
  case (Cons c cs t ts)
  from Cons.prems have "is_capital t" "\<forall>t \<in> set ts. is_capital t" by simp_all
  with Cons.IH Cons.hyps(1) have "upper_char c = [of_char t]" "upper cs = code_points ts"
    by (simp_all add: upper_char_same)
  then show ?case by (simp add: upper_def code_points_def)
qed

lemma occurs_contains:
  assumes "\<forall>t \<in> set token. is_capital t" and "occurs_ignoring_case token s"
  shows "str_contains (upper s) (code_points token)"
proof -
  from assms(2) obtain pre mid suf where e: "s = pre @ mid @ suf"
    "list_all2 same_ignoring_case mid token" unfolding occurs_ignoring_case_iff by blast
  from upper_matching [OF e(2) assms(1)] e(1)
  have "upper s = upper pre @ code_points token @ upper suf" by (simp add: upper_append)
  then show ?thesis unfolding str_contains_iff by blast
qed

lemma upper_char_single:
  "c \<noteq> CHR 0xDF \<Longrightarrow> upper_char c = [hd (upper_char c)]"
proof -
  assume "c \<noteq> CHR 0xDF"
  then have "of_char c \<noteq> (of_char (CHR 0xDF) :: nat)" by (simp only: of_char_eq_iff) simp
  then have "of_char c \<noteq> (0xDF :: nat)" by simp
  then show ?thesis by (simp add: upper_char_def Let_def)
qed

lemma upper_map: "CHR 0xDF \<notin> set s \<Longrightarrow> upper s = map (\<lambda>c. hd (upper_char c)) s"
proof (induction s)
  case Nil
  show ?case by (simp add: upper_def)
next
  case (Cons c cs)
  then have "c \<noteq> CHR 0xDF" and "upper cs = map (\<lambda>c. hd (upper_char c)) cs" by auto
  with upper_char_single [of c] show ?case by (simp add: upper_def)
qed

lemma matching_upper:
  "map (\<lambda>c. hd (upper_char c)) mid = code_points token \<Longrightarrow> CHR 0xDF \<notin> set mid \<Longrightarrow>
   \<forall>t \<in> set token. is_capital t \<Longrightarrow> list_all2 same_ignoring_case mid token"
proof (induction mid arbitrary: token)
  case Nil
  then show ?case by (simp add: code_points_def)
next
  case (Cons c cs)
  from Cons.prems(1) obtain t ts where t: "token = t # ts" "hd (upper_char c) = of_char t"
    "map (\<lambda>c. hd (upper_char c)) cs = code_points ts"
    by (cases token) (auto simp: code_points_def)
  from Cons.prems(2) have "c \<noteq> CHR 0xDF" "CHR 0xDF \<notin> set cs" by auto
  from upper_char_single [OF this(1)] t(2) have "upper_char c = [of_char t]" by simp
  moreover from Cons.prems(3) t(1) have "is_capital t" "\<forall>t \<in> set ts. is_capital t" by simp_all
  ultimately have "same_ignoring_case c t" by (simp add: same_upper_char)
  moreover from Cons.IH [OF t(3) \<open>CHR 0xDF \<notin> set cs\<close> \<open>\<forall>t \<in> set ts. is_capital t\<close>]
  have "list_all2 same_ignoring_case cs ts" .
  ultimately show ?case using t(1) by simp
qed

lemma contains_occurs:
  assumes "\<forall>t \<in> set token. is_capital t" and "CHR 0xDF \<notin> set s"
    and "str_contains (upper s) (code_points token)"
  shows "occurs_ignoring_case token s"
proof -
  let ?f = "\<lambda>c. hd (upper_char c)"
  from assms(3) obtain pre suf where "upper s = pre @ code_points token @ suf"
    unfolding str_contains_iff by blast
  with upper_map [OF assms(2)] have "map ?f s = pre @ code_points token @ suf" by simp
  then have "\<exists>p r. s = p @ r \<and> pre = map ?f p \<and> code_points token @ suf = map ?f r"
    by (simp only: map_eq_append_conv)
  then obtain p r where 1: "s = p @ r" "code_points token @ suf = map ?f r" by blast
  from 1(2) have "\<exists>m q. r = m @ q \<and> code_points token = map ?f m \<and> suf = map ?f q"
    by (simp only: append_eq_map_conv)
  then obtain m q where 2: "r = m @ q" "map ?f m = code_points token" by auto
  from 1(1) 2(1) assms(2) have "CHR 0xDF \<notin> set m" by simp
  from matching_upper [OF 2(2) this assms(1)] 1(1) 2(1)
  have "s = p @ m @ q \<and> list_all2 same_ignoring_case m token" by simp
  then show ?thesis unfolding occurs_ignoring_case_iff by blast
qed

section \<open>The Text Fallback Parser\<close>

lemma scan_buttons_filter:
  "scan_buttons s bs acc = acc @ filter (\<lambda>button. str_contains s (code_points button)) bs"
  by (induction bs arbitrary: acc) simp_all

lemma buttons_in_text_filter:
  "buttons_in_text s
     = filter (\<lambda>button. str_contains (upper s) (code_points button)) valid_buttons"
  by (simp add: buttons_in_text_def scan_buttons_filter)

lemma valid_buttons_capitals: "\<forall>token \<in> set valid_buttons. \<forall>t \<in> set token. is_capital t"
  by (simp add: valid_buttons_def is_capital_def)

lemma distinct_valid_buttons: "distinct valid_buttons"
  by (simp add: valid_buttons_def)

lemma occurring_token_collected:
  "token \<in> set valid_buttons \<Longrightarrow> occurs_ignoring_case token s \<Longrightarrow>
   token \<in> set (buttons_in_text s)"
  using valid_buttons_capitals by (simp add: buttons_in_text_filter occurs_contains)

lemma collected_token_occurs:
  "CHR 0xDF \<notin> set s \<Longrightarrow> token \<in> set (buttons_in_text s) \<Longrightarrow> occurs_ignoring_case token s"
  using valid_buttons_capitals by (auto simp: buttons_in_text_filter intro: contains_occurs)

lemma distinct_buttons_in_text: "distinct (buttons_in_text s)"
  unfolding buttons_in_text_filter using distinct_valid_buttons by (rule distinct_filter)

lemma subseq_buttons_in_text: "subseq (buttons_in_text s) valid_buttons"
  unfolding buttons_in_text_filter by simp

lemma upper_example:
  "upper ''i will press up and then A to confirm''
     = code_points ''I WILL PRESS UP AND THEN A TO CONFIRM''"
  by (simp add: upper_def upper_char_def code_points_def)

lemma buttons_example:
  "buttons_in_text ''i will press up and then A to confirm'' = [''A'', ''UP'']"
  unfolding buttons_in_text_def upper_example valid_buttons_def by (simp add: code_points_def)

lemma parse_and_execute_eq:
  "parse_and_execute_text_response ops txt s =
     (if buttons_in_text txt = [] then (Inr (), s)
      else case emu_press_buttons ops
                  [(''buttons'', JList (map JStr (buttons_in_text txt)))] (world s) of
             (r, w') \<Rightarrow>
               (case r of Inl e \<Rightarrow> Inl e | Inr x \<Rightarrow> Inr (),
                s\<lparr>world := w',
                  calls := calls s @
                    [EmuPressButtons [(''buttons'', JList (map JStr (buttons_in_text txt)))]]\<rparr>))"
  by (simp add: parse_and_execute_text_response_def bnd_def collab_call_def ret_def
      split: prod.splits sum.splits)

lemma press_example:
  "calls (snd (parse_and_execute_text_response ops ''i will press up and then A to confirm'' s))
     = calls s @ [EmuPressButtons [(''buttons'', JList [JStr ''A'', JStr ''UP''])]]"
  unfolding parse_and_execute_eq buttons_example by (simp split: prod.splits)

text \<open>
  A text with the sharp s, U+00DF: \<open>str.upper\<close> turns it into "SS", so the uppercased
  text of the sharp s followed by "elect" is "SSELECT" and the parser collects SELECT,
  while no stretch of the text is "select" in any mix of cases.
\<close>

lemma sharp_s_gives_select:
  "buttons_in_text ([CHR 0xDF] @ ''elect'') = [''SELECT'']
   \<and> \<not> occurs_ignoring_case ''SELECT'' ([CHR 0xDF] @ ''elect'')"
  by (simp add: buttons_in_text_def upper_def upper_char_def valid_buttons_def code_points_def
      same_ignoring_case_def small_letter_def is_capital_def)

text \<open>
  C4. For every assistant text, the fallback parser does nothing when it collects no
  button, and otherwise makes one press request to the emulator, with the batch of the
  buttons it collected, and raises exactly when that request does. Every token of A, B,
  START, SELECT, UP, DOWN, LEFT, RIGHT that occurs in the text ignoring case is in the
  batch; the batch has each of its tokens once, however often the token occurs, and in
  the order of that enumeration, not of their appearance in the text. A text without the
  sharp s has nothing else in the batch. For the text
  "i will press up and then A to confirm" the batch is A, UP.
\<close>

theorem fallback_parser_collects_tokens:
  "parse_and_execute_text_response ops txt s =
     (if buttons_in_text txt = [] then (Inr (), s)
      else case emu_press_buttons ops
                  [(''buttons'', JList (map JStr (buttons_in_text txt)))] (world s) of
             (r, w') \<Rightarrow>
               (case r of Inl e \<Rightarrow> Inl e | Inr x \<Rightarrow> Inr (),
                s\<lparr>world := w',
                  calls := calls s @
                    [EmuPressButtons [(''buttons'', JList (map JStr (buttons_in_text txt)))]]\<rparr>))
   \<and> (\<forall>token \<in> set valid_buttons.
         occurs_ignoring_case token txt \<longrightarrow> token \<in> set (buttons_in_text txt))
   \<and> (CHR 0xDF \<notin> set txt \<longrightarrow>
         (\<forall>token \<in> set (buttons_in_text txt). occurs_ignoring_case token txt))
   \<and> distinct (buttons_in_text txt)
   \<and> subseq (buttons_in_text txt) valid_buttons
   \<and> buttons_in_text ''i will press up and then A to confirm'' = [''A'', ''UP'']
   \<and> calls (snd (parse_and_execute_text_response ops ''i will press up and then A to confirm'' s))
       = calls s @ [EmuPressButtons [(''buttons'', JList [JStr ''A'', JStr ''UP''])]]"
proof (intro conjI)
  show "\<forall>token \<in> set valid_buttons.
          occurs_ignoring_case token txt \<longrightarrow> token \<in> set (buttons_in_text txt)"
    using occurring_token_collected by blast
  show "CHR 0xDF \<notin> set txt \<longrightarrow>
          (\<forall>token \<in> set (buttons_in_text txt). occurs_ignoring_case token txt)"
    using collected_token_occurs by blast
qed (rule parse_and_execute_eq distinct_buttons_in_text subseq_buttons_in_text
      buttons_example press_example)+

theorem fallback_parser_collects_tokens_witness:
  "''UP'' \<in> set valid_buttons
   \<and> occurs_ignoring_case ''UP'' ''i will press up and then A to confirm''
   \<and> CHR 0xDF \<notin> set ''i will press up and then A to confirm''
   \<and> ''UP'' \<in> set (buttons_in_text ''i will press up and then A to confirm'')
   \<and> occurs_ignoring_case ''A'' ''i will press up and then A to confirm''
   \<and> parse_and_execute_text_response (fake_collaborators backend_down)
        ''i will press up and then A to confirm'' (init_agent ())
       = (Inr (), (init_agent ())
            \<lparr>calls := [EmuPressButtons [(''buttons'', JList [JStr ''A'', JStr ''UP''])]]\<rparr>)"
proof -
  have h: "''UP'' \<in> set valid_buttons
      \<and> occurs_ignoring_case ''UP'' ''i will press up and then A to confirm''
      \<and> CHR 0xDF \<notin> set ''i will press up and then A to confirm''"
    by (simp add: valid_buttons_def same_ignoring_case_def small_letter_def is_capital_def)
  from fallback_parser_collects_tokens [of "fake_collaborators backend_down"
      "''i will press up and then A to confirm''" "init_agent ()"] h
  show ?thesis
    by (simp add: fake_collaborators_def ret_def init_agent_def same_ignoring_case_def
        small_letter_def is_capital_def)
qed

section \<open>The Model Backend Adapter and the Action Executor\<close>

lemma call_tool_dict: "call_tool_from_response (Dict d) fns s = (Inl attribute_error, s)"
  by (simp add: call_tool_from_response_def getattr_message_def raise_def attribute_error_def)

lemma call_tool_no_calls:
  "tool_calls m = None \<or> tool_calls m = Some [] \<Longrightarrow>
   call_tool_from_response (ChatResponse m) fns s = (Inr [], s)"
  by (auto simp: call_tool_from_response_def getattr_message_def ret_def)

lemma process_response_dict:
  "process_response ops (Dict d) s =
     (Inl attribute_error,
      s\<lparr>heap := (heap s)(message_history s :=
          history s @ [\<lparr>role = ''assistant'', content = Text (response_content (Dict d))\<rparr>])\<rparr>)"
  by (simp add: process_response_def bnd_def append_history_def list_append_def call_tool_dict
      history_def)

text \<open>
  C1. The claim is that a response without a usable tool-call section, the adapter's own
  error reply included, gives an empty result list and leads on to the fallback parser.
  On the error reply the code does otherwise: \<open>call_tool_from_response\<close> reads
  \<open>response.message\<close> as an attribute, which a \<open>dict\<close> does not have, so it raises
  \<open>AttributeError\<close>; \<open>_process_response\<close> does not catch it, and the fallback parser is
  not reached (no call goes to the emulator).
\<close>

theorem error_reply_crashes_executor:
  "call_tool_from_response (error_reply e) available_functions s = (Inl attribute_error, s)
   \<and> fst (process_response ops (error_reply e) s') = Inl attribute_error
   \<and> calls (snd (process_response ops (error_reply e) s')) = calls s'"
  by (simp add: error_reply_def call_tool_dict process_response_dict)

lemma tool_loop_prepend:
  "tool_loop fns tcs (pre @ results) s =
     (case tool_loop fns tcs results s of
        (Inr rs, s') \<Rightarrow> (Inr (pre @ rs), s')
      | (Inl e, s') \<Rightarrow> (Inl e, s'))"
proof (induction tcs arbitrary: results s)
  case Nil
  then show ?case by simp
next
  case (Cons t rest)
  have IH: "\<And>x s. tool_loop fns rest (pre @ results @ [x]) s =
     (case tool_loop fns rest (results @ [x]) s of
        (Inr rs, s') \<Rightarrow> (Inr (pre @ rs), s')
      | (Inl e, s') \<Rightarrow> (Inl e, s'))"
    using Cons.IH by blast
  show ?case
    by (simp add: IH split: option.splits prod.splits sum.splits pyexc.splits)
qed

lemma tool_loop_append:
  "tool_loop fns (xs @ ys) results s =
     (case tool_loop fns xs results s of
        (Inr rs, s') \<Rightarrow> tool_loop fns ys rs s'
      | (Inl e, s') \<Rightarrow> (Inl e, s'))"
  by (induction xs arbitrary: results s)
     (simp_all split: option.splits prod.splits sum.splits pyexc.splits)

lemma tool_loop_entries:
  "tool_loop fns tcs results s = (Inr rs, s') \<Longrightarrow>
   map tool rs = map tool results @ map fn_name tcs
   \<and> map args rs = map args results @ map fn_arguments tcs"
proof (induction tcs arbitrary: results s)
  case Nil
  then show ?case by simp
next
  case (Cons t rest)
  from Cons.prems show ?case
    by (auto split: option.splits prod.splits sum.splits pyexc.splits dest!: Cons.IH)
qed

lemma tool_loop_returns:
  assumes "no_interrupt fns"
  shows "\<exists>rs s'. tool_loop fns tcs results s = (Inr rs, s')"
proof (induction tcs arbitrary: results s)
  case Nil
  then show ?case by simp
next
  case (Cons t rest)
  show ?case
  proof (cases "fns (fn_name t)")
    case None
    then show ?thesis using Cons.IH by simp
  next
    case (Some g)
    obtain res s1 where g: "g (fn_arguments t) s = (res, s1)" by (cases "g (fn_arguments t) s")
    with assms Some have "res \<noteq> Inl KeyboardInterrupt"
      unfolding no_interrupt_def by (metis fst_conv)
    with Some g show ?thesis using Cons.IH
      by (cases res) (auto split: pyexc.splits)
  qed
qed

lemma call_tool_object:
  "tool_calls m = Some tcs \<Longrightarrow> call_tool_from_response (ChatResponse m) fns s = tool_loop fns tcs [] s"
  by (cases tcs) (simp_all add: call_tool_from_response_def getattr_message_def ret_def)

lemma call_tool_update:
  "call_tool_from_response (ChatResponse (m\<lparr>tool_calls := Some tcs\<rparr>)) fns s = tool_loop fns tcs [] s"
  by (rule call_tool_object) simp

text \<open>
  C6. For a reply with two tool calls, the first naming a tool that is not registered and
  the second a registered one whose call returns, the executor returns two entries: the
  error "Function ... not found" for the first, and the result of the second, whose
  effect on the state is the effect of that call. In general the entries are one per
  call, in the order of the calls, with their names and arguments; the executor returns
  unless a call is interrupted (an exception that is not an \<open>Exception\<close>); and
  executing the calls \<open>xs @ ys\<close> is executing \<open>xs\<close>, whatever errors they give, and
  then \<open>ys\<close> in the state that \<open>xs\<close> left.
\<close>

theorem executor_runs_every_invocation:
  "(available_functions n1 = None \<and> available_functions n2 = Some f \<and> f a2 s = (Inr r, s') \<longrightarrow>
      call_tool_from_response
        (ChatResponse \<lparr>msg_content = c,
           tool_calls = Some [\<lparr>fn_name = n1, fn_arguments = a1\<rparr>, \<lparr>fn_name = n2, fn_arguments = a2\<rparr>]\<rparr>)
        available_functions s
      = (Inr [\<lparr>tool = n1, args = a1, outcome = Error (''Function '' @ n1 @ '' not found'')\<rparr>,
              \<lparr>tool = n2, args = a2, outcome = Result r\<rparr>], s'))
   \<and> (tool_calls m = Some tcs
        \<and> call_tool_from_response (ChatResponse m) available_functions s = (Inr rs, s1) \<longrightarrow>
          map tool rs = map fn_name tcs \<and> map args rs = map fn_arguments tcs)
   \<and> (no_interrupt available_functions \<longrightarrow>
          (\<exists>rs' s1'. call_tool_from_response (ChatResponse m) available_functions s = (Inr rs', s1')))
   \<and> call_tool_from_response (ChatResponse (m\<lparr>tool_calls := Some (xs @ ys)\<rparr>)) available_functions s
      = (case call_tool_from_response (ChatResponse (m\<lparr>tool_calls := Some xs\<rparr>)) available_functions s of
           (Inl e, s2) \<Rightarrow> (Inl e, s2)
         | (Inr rs1, s2) \<Rightarrow>
             (case call_tool_from_response (ChatResponse (m\<lparr>tool_calls := Some ys\<rparr>))
                     available_functions s2 of
                (Inl e, s3) \<Rightarrow> (Inl e, s3)
              | (Inr rs2, s3) \<Rightarrow> (Inr (rs1 @ rs2), s3)))"
proof (intro conjI impI)
  assume "available_functions n1 = None \<and> available_functions n2 = Some f \<and> f a2 s = (Inr r, s')"
  then show "call_tool_from_response
        (ChatResponse \<lparr>msg_content = c,
           tool_calls = Some [\<lparr>fn_name = n1, fn_arguments = a1\<rparr>, \<lparr>fn_name = n2, fn_arguments = a2\<rparr>]\<rparr>)
        available_functions s
      = (Inr [\<lparr>tool = n1, args = a1, outcome = Error (''Function '' @ n1 @ '' not found'')\<rparr>,
              \<lparr>tool = n2, args = a2, outcome = Result r\<rparr>], s')"
    by (simp add: call_tool_object)
next
  assume "tool_calls m = Some tcs
        \<and> call_tool_from_response (ChatResponse m) available_functions s = (Inr rs, s1)"
  then have "tool_loop available_functions tcs [] s = (Inr rs, s1)"
    using call_tool_object [of m tcs available_functions s] by simp
  from tool_loop_entries [OF this]
  show "map tool rs = map fn_name tcs" and "map args rs = map fn_arguments tcs" by simp_all
next
  assume ni: "no_interrupt available_functions"
  show "\<exists>rs' s1'. call_tool_from_response (ChatResponse m) available_functions s = (Inr rs', s1')"
  proof (cases "tool_calls m")
    case None
    then show ?thesis by (simp add: call_tool_no_calls)
  next
    case (Some tcs)
    then show ?thesis
      using tool_loop_returns [OF ni] call_tool_object [of m tcs available_functions s] by simp
  qed
next
  have "tool_loop available_functions (xs @ ys) [] s
      = (case tool_loop available_functions xs [] s of
           (Inl e, s2) \<Rightarrow> (Inl e, s2)
         | (Inr rs1, s2) \<Rightarrow>
             (case tool_loop available_functions ys [] s2 of
                (Inl e, s3) \<Rightarrow> (Inl e, s3)
              | (Inr rs2, s3) \<Rightarrow> (Inr (rs1 @ rs2), s3)))"
  proof (cases "tool_loop available_functions xs [] s")
    case (Pair res s2)
    show ?thesis
    proof (cases res)
      case (Inl e)
      with Pair show ?thesis by (simp add: tool_loop_append)
    next
      case (Inr rs1)
      with Pair show ?thesis
        using tool_loop_prepend [of available_functions ys rs1 "[]" s2]
        by (simp add: tool_loop_append)
    qed
  qed
  then show "call_tool_from_response (ChatResponse (m\<lparr>tool_calls := Some (xs @ ys)\<rparr>)) available_functions s
      = (case call_tool_from_response (ChatResponse (m\<lparr>tool_calls := Some xs\<rparr>)) available_functions s of
           (Inl e, s2) \<Rightarrow> (Inl e, s2)
         | (Inr rs1, s2) \<Rightarrow>
             (case call_tool_from_response (ChatResponse (m\<lparr>tool_calls := Some ys\<rparr>))
                     available_functions s2 of
                (Inl e, s3) \<Rightarrow> (Inl e, s3)
              | (Inr rs2, s3) \<Rightarrow> (Inr (rs1 @ rs2), s3)))"
    by (simp add: call_tool_update split: prod.splits sum.splits)
qed

lemma no_interrupt_fake: "no_interrupt (get_available_functions (fake_collaborators chat))"
  unfolding no_interrupt_def get_available_functions_def
  by (auto simp: fake_collaborators_def collab_call_def ret_def raise_def
      split: list.splits if_splits prod.splits)

theorem executor_runs_every_invocation_witness:
  "call_tool_from_response (ChatResponse \<lparr>msg_content = [], tool_calls = Some two_calls\<rparr>)
     (get_available_functions (fake_collaborators backend_down)) (init_agent ())
   = (Inr [\<lparr>tool = ''navigate_to'', args = [(''row'', JInt 1), (''col'', JInt 2)],
            outcome = Error ''Function navigate_to not found''\<rparr>,
           \<lparr>tool = ''press_buttons'', args = [(''buttons'', JList [JStr ''a''])],
            outcome = Result (JList [])\<rparr>],
      (init_agent ())\<lparr>calls := [EmuPressButtons [(''buttons'', JList [JStr ''a''])]]\<rparr>)
   \<and> no_interrupt (get_available_functions (fake_collaborators backend_down))"
proof -
  let ?fns = "get_available_functions (fake_collaborators backend_down)"
  let ?s' = "(init_agent ())\<lparr>calls := [EmuPressButtons [(''buttons'', JList [JStr ''a''])]]\<rparr>"
  let ?f = "\<lambda>kw. collab_call (EmuPressButtons kw) (emu_press_buttons (fake_collaborators backend_down) kw)"
  have 1: "?fns ''navigate_to'' = None" by (simp add: get_available_functions_def)
  have 2: "?fns ''press_buttons'' = Some ?f" by (simp add: get_available_functions_def)
  have 3: "?f [(''buttons'', JList [JStr ''a''])] (init_agent ()) = (Inr (JList []), ?s')"
    by (simp add: collab_call_def fake_collaborators_def ret_def init_agent_def)
  note t = executor_runs_every_invocation [where available_functions = ?fns
      and ?n1.0 = "''navigate_to''" and ?n2.0 = "''press_buttons''" and f = ?f
      and ?a1.0 = "[(''row'', JInt 1), (''col'', JInt 2)]"
      and ?a2.0 = "[(''buttons'', JList [JStr ''a''])]" and s = "init_agent ()"
      and r = "JList []" and s' = ?s' and c = "[]"
      and m = "\<lparr>msg_content = [], tool_calls = Some two_calls\<rparr>" and tcs = two_calls]
  from t 1 2 3 no_interrupt_fake show ?thesis by (simp add: two_calls_def)
qed

section \<open>History summarization\<close>

lemma collab_call_eq:
  "collab_call c operation s =
     (fst (operation (world s)),
      s\<lparr>world := snd (operation (world s)), calls := calls s @ [c]\<rparr>)"
  by (simp add: collab_call_def split: prod.splits)

lemma chat_via_client_eq:
  "chat_via_client ops messages tools s =
     (adapter_result (fst (backend_chat ops (heap s messages) (normalize_tools tools) (world s))),
      s\<lparr>world := snd (backend_chat ops (heap s messages) (normalize_tools tools) (world s)),
        calls := calls s @ [BackendChat (heap s messages) (normalize_tools tools)]\<rparr>)"
  by (simp add: chat_via_client_def try_except_def bnd_def collab_call_eq ret_def
      adapter_result_def normalize_tools_def error_reply_def
      split: prod.splits sum.splits pyexc.splits)

lemma format_loop_eq:
  "format_loop a msgs s = (Inr (), s\<lparr>heap := (heap s)(a := heap s a @ map flatten_message msgs)\<rparr>)"
  by (induction msgs arbitrary: s) (simp_all add: list_append_def)

lemma format_messages_eq:
  assumes "wf_agent s"
  shows "format_messages_for_ollama s =
           (Inr (next_addr s),
            s\<lparr>heap := (heap s)(next_addr s := system_turn # map flatten_message (history s)),
              next_addr := Suc (next_addr s)\<rparr>)"
  using assms
  by (simp add: format_messages_for_ollama_def bnd_def new_list_def format_loop_eq ret_def
      history_def wf_agent_def system_turn_def)

lemma format_messages_raw:
  "format_messages_for_ollama s =
     (Inr (next_addr s),
      s\<lparr>heap := (heap s)(next_addr s :=
           system_turn # map flatten_message
             (((heap s)(next_addr s := [system_turn])) (message_history s))),
        next_addr := Suc (next_addr s)\<rparr>)"
  by (simp add: format_messages_for_ollama_def bnd_def new_list_def format_loop_eq ret_def
      history_def system_turn_def)

text \<open>The request phase on a well-formed agent, by the outcome of the two collaborator calls.\<close>

lemma summary_request_eq:
  assumes wf: "wf_agent s"
    and shot: "emu_get_screenshot ops (world s) = (Inr img, w1)"
    and chat: "backend_chat ops (system_turn # map flatten_message (history s) @ [request_turn])
                 None w1 = (res, w2)"
  shows "summary_request ops s =
           (case adapter_result res of
              Inl e \<Rightarrow> Inl e
            | Inr response \<Rightarrow> Inr (get_screenshot_base64 ops img (Some 2), response),
            s\<lparr>world := w2,
              calls := calls s @ [EmuGetScreenshot,
                BackendChat (system_turn # map flatten_message (history s) @ [request_turn]) None],
              heap := (heap s)(next_addr s :=
                system_turn # map flatten_message (history s) @ [request_turn]),
              next_addr := Suc (next_addr s)\<rparr>)"
proof -
  let ?s1 = "s\<lparr>world := w1, calls := calls s @ [EmuGetScreenshot]\<rparr>"
  have wf1: "wf_agent ?s1" using wf by (simp add: wf_agent_def)
  have h1: "history ?s1 = history s" by (simp add: history_def)
  show ?thesis
    using shot chat
    by (simp add: summary_request_def bnd_def collab_call_eq format_messages_eq [OF wf1] h1
        list_append_def chat_via_client_eq normalize_tools_def ret_def request_turn_def
        split: sum.splits)
qed

lemma summary_request_screenshot_raises:
  assumes "emu_get_screenshot ops (world s) = (Inl e, w1)"
  shows "summary_request ops s = (Inl e, s\<lparr>world := w1, calls := calls s @ [EmuGetScreenshot]\<rparr>)"
  using assms by (simp add: summary_request_def bnd_def collab_call_eq)

lemma summary_request_frame:
  assumes "summary_request ops s = (r, s1)"
  shows "max_history s1 = max_history s \<and> running s1 = running s"
  using assms
  by (auto simp: summary_request_def bnd_def collab_call_eq format_messages_raw list_append_def
      chat_via_client_eq ret_def split: sum.splits prod.splits)

lemma summarize_history_result:
  assumes "summarize_history ops s = (Inr u, s')"
  shows "\<exists>response b64. history s' = [summary_turn (max_history s) (response_content response) b64]
           \<and> max_history s' = max_history s \<and> running s' = running s"
proof -
  obtain r s1 where req: "summary_request ops s = (r, s1)" by (cases "summary_request ops s")
  note mh = summary_request_frame [OF req]
  from assms req obtain b64 response where r: "r = Inr (b64, response)"
    by (cases r) (auto simp: summarize_history_def bnd_def)
  from assms req r
  have "history s' = [summary_turn (max_history s1) (response_content response) b64]
        \<and> max_history s' = max_history s1 \<and> running s' = running s1"
    by (auto simp: summarize_history_def bnd_def new_list_def history_def)
  with mh show ?thesis by (intro exI [of _ response] exI [of _ b64]) simp
qed

lemma adapter_result_cases:
  assumes "r \<noteq> Inl KeyboardInterrupt"
  obtains response where "adapter_result r = Inr response"
proof (cases r)
  case (Inl e)
  with assms that show ?thesis by (cases e) (auto simp: adapter_result_def)
next
  case (Inr m)
  with that show ?thesis by (simp add: adapter_result_def)
qed

lemma summarize_history_eq:
  assumes wf: "wf_agent s"
    and shot: "emu_get_screenshot ops (world s) = (Inr img, w1)"
    and chat: "backend_chat ops (system_turn # map flatten_message (history s) @ [request_turn])
                 None w1 = (res, w2)"
    and reply: "adapter_result res = Inr response"
  shows "summarize_history ops s =
           (Inr (),
            s\<lparr>world := w2,
              calls := calls s @ [EmuGetScreenshot,
                BackendChat (system_turn # map flatten_message (history s) @ [request_turn]) None],
              heap := (heap s)
                (next_addr s := system_turn # map flatten_message (history s) @ [request_turn],
                 Suc (next_addr s) :=
                   [summary_turn (max_history s) (response_content response)
                      (get_screenshot_base64 ops img (Some 2))]),
              next_addr := Suc (Suc (next_addr s)),
              message_history := Suc (next_addr s)\<rparr>)"
  by (simp add: summarize_history_def bnd_def summary_request_eq [OF wf shot chat] reply new_list_def)

lemma summarize_history_returns:
  assumes wf: "wf_agent s"
    and shot: "emu_get_screenshot ops (world s) = (Inr img, w1)"
    and chat: "fst (backend_chat ops (system_turn # map flatten_message (history s) @ [request_turn])
                 None w1) \<noteq> Inl KeyboardInterrupt"
  shows "\<exists>s'. summarize_history ops s = (Inr (), s')"
proof -
  obtain res w2 where c: "backend_chat ops
      (system_turn # map flatten_message (history s) @ [request_turn]) None w1 = (res, w2)"
    by (cases "backend_chat ops
      (system_turn # map flatten_message (history s) @ [request_turn]) None w1")
  with chat have "res \<noteq> Inl KeyboardInterrupt" by simp
  then obtain response where "adapter_result res = Inr response" by (rule adapter_result_cases)
  from summarize_history_eq [OF wf shot c this] show ?thesis by blast
qed



lemma wf_init_agent: "wf_agent (init_agent w)"
  by (simp add: wf_agent_def init_agent_def)

lemma history_init_agent: "history (init_agent w) = []"
  by (simp add: history_def init_agent_def)

lemma summarize_fake:
  "summarize_history (fake_collaborators (backend_says txt)) (init_agent ()) =
     (Inr (),
      (init_agent ())\<lparr>
         calls := [EmuGetScreenshot, BackendChat [system_turn, request_turn] None],
         heap := (\<lambda>a. [])
           (1 := [system_turn, request_turn],
            2 := [summary_turn 10 txt ''iVBORw0KGgo='']),
         next_addr := 3,
         message_history := 2\<rparr>)"
proof -
  let ?ops = "fake_collaborators (backend_says txt)"
  have shot: "emu_get_screenshot ?ops (world (init_agent ())) = (Inr fake_image, ())"
    by (simp add: fake_collaborators_def ret_def)
  have chat: "backend_chat ?ops
      (system_turn # map flatten_message (history (init_agent ())) @ [request_turn]) None ()
      = (Inr \<lparr>msg_content = txt, tool_calls = None\<rparr>, ())"
    by (simp add: fake_collaborators_def backend_says_def ret_def)
  have reply: "adapter_result (Inr \<lparr>msg_content = txt, tool_calls = None\<rparr>)
      = Inr (ChatResponse \<lparr>msg_content = txt, tool_calls = None\<rparr>)"
    by (simp add: adapter_result_def)
  have b64: "get_screenshot_base64 ?ops fake_image (Some 2) = ''iVBORw0KGgo=''"
    by (simp add: get_screenshot_base64_def fake_collaborators_def)
  show ?thesis
    unfolding summarize_history_eq [OF wf_init_agent shot chat reply] b64 history_init_agent
    by (simp add: init_agent_def response_content_def MAX_HISTORY_def numeral_2_eq_2
        numeral_3_eq_3)
qed



text \<open>
  C8. The one turn that is the history after \<open>summarize_history\<close> has four parts: the
  summary text, which names \<open>max_history\<close> ("representing 10 previous messages" for the
  configured value), a text introducing the screenshot, the screenshot, and a closing
  text. So it has exactly one image part and three text parts, whatever the history was.
\<close>

theorem summary_turn_shape:
  "(summarize_history ops s = (Inr u, s') \<longrightarrow>
      (\<exists>t summary b64 intro closing.
         history s' = [t]
         \<and> parts_of t =
             [TextPart (''CONVERSATION HISTORY SUMMARY (representing '' @ str_int (max_history s)
                        @ '' previous messages): '' @ summary),
              TextPart intro, ImagePart ''base64'' ''image/png'' b64, TextPart closing]
         \<and> length (filter is_image (parts_of t)) = 1
         \<and> 2 \<le> length (filter is_text (parts_of t))))
   \<and> (wf_agent s \<and> emu_get_screenshot ops (world s) = (Inr img, w1)
        \<and> backend_chat ops (system_turn # map flatten_message (history s) @ [request_turn])
             None w1 = (res, w2)
        \<and> adapter_result res = Inr response \<longrightarrow>
          (\<exists>s2. summarize_history ops s = (Inr (), s2)
                \<and> history s2 = [summary_turn (max_history s) (response_content response)
                                   (get_screenshot_base64 ops img (Some 2))]))
   \<and> str_int (max_history (init_agent w)) = ''10''"
proof (intro conjI impI)
  assume "summarize_history ops s = (Inr u, s')"
  from summarize_history_result [OF this] obtain response b64 where
    h: "history s' = [summary_turn (max_history s) (response_content response) b64]" by blast
  let ?t = "summary_turn (max_history s) (response_content response) b64"
  have "parts_of ?t =
      [TextPart (''CONVERSATION HISTORY SUMMARY (representing '' @ str_int (max_history s)
                 @ '' previous messages): '' @ response_content response),
       TextPart (newline @ newline @ ''Current game screenshot for reference:''),
       ImagePart ''base64'' ''image/png'' b64,
       TextPart ''You were just asked to summarize your playthrough so far, which is the summary you see above. You may now continue playing by selecting your next action.'']"
    by (simp add: parts_of_def summary_turn_def)
  moreover from this have "length (filter is_image (parts_of ?t)) = 1
      \<and> 2 \<le> length (filter is_text (parts_of ?t))" by simp
  ultimately show "\<exists>t summary b64 intro closing.
         history s' = [t]
         \<and> parts_of t =
             [TextPart (''CONVERSATION HISTORY SUMMARY (representing '' @ str_int (max_history s)
                        @ '' previous messages): '' @ summary),
              TextPart intro, ImagePart ''base64'' ''image/png'' b64, TextPart closing]
         \<and> length (filter is_image (parts_of t)) = 1
         \<and> 2 \<le> length (filter is_text (parts_of t))"
    using h by blast
next
  assume a: "wf_agent s \<and> emu_get_screenshot ops (world s) = (Inr img, w1)
        \<and> backend_chat ops (system_turn # map flatten_message (history s) @ [request_turn])
             None w1 = (res, w2)
        \<and> adapter_result res = Inr response"
  then have e: "summarize_history ops s =
           (Inr (),
            s\<lparr>world := w2,
              calls := calls s @ [EmuGetScreenshot,
                BackendChat (system_turn # map flatten_message (history s) @ [request_turn]) None],
              heap := (heap s)
                (next_addr s := system_turn # map flatten_message (history s) @ [request_turn],
                 Suc (next_addr s) :=
                   [summary_turn (max_history s) (response_content response)
                      (get_screenshot_base64 ops img (Some 2))]),
              next_addr := Suc (Suc (next_addr s)),
              message_history := Suc (next_addr s)\<rparr>)"
    using summarize_history_eq [of s ops img w1 res w2 response] by blast
  show "\<exists>s2. summarize_history ops s = (Inr (), s2)
                \<and> history s2 = [summary_turn (max_history s) (response_content response)
                                   (get_screenshot_base64 ops img (Some 2))]"
    unfolding e by (simp add: history_def)
next
  show "str_int (max_history (init_agent w)) = ''10''"
    by (simp add: init_agent_def MAX_HISTORY_def str_int_def)
qed

theorem summary_turn_shape_witness:
  "history (snd (summarize_history (fake_collaborators (backend_says ''ok'')) (init_agent ())))
     = [summary_turn 10 ''ok'' ''iVBORw0KGgo='']
   \<and> length (filter is_image (parts_of (summary_turn 10 ''ok'' ''iVBORw0KGgo=''))) = 1
   \<and> length (filter is_text (parts_of (summary_turn 10 ''ok'' ''iVBORw0KGgo=''))) = 3"
proof -
  let ?ops = "fake_collaborators (backend_says ''ok'')"
  let ?s' = "snd (summarize_history ?ops (init_agent ()))"
  have e: "summarize_history ?ops (init_agent ()) = (Inr (), ?s')"
    by (simp add: summarize_fake)
  have h: "history ?s' = [summary_turn 10 ''ok'' ''iVBORw0KGgo='']"
    by (simp add: summarize_fake history_def)
  note t = summary_turn_shape [where ops = ?ops and s = "init_agent ()" and u = "()"
      and s' = ?s', THEN conjunct1]
  from t e obtain t where "history ?s' = [t]"
    and "length (filter is_image (parts_of t)) = 1"
    and "2 \<le> length (filter is_text (parts_of t))" by blast
  with h show ?thesis by (simp add: parts_of_def summary_turn_def)
qed

lemma summary_request_history:
  assumes wf: "wf_agent s" and req: "summary_request ops s = (r, s1)"
  shows "message_history s1 = message_history s \<and> heap s1 (message_history s) = heap s (message_history s)"
proof (cases "emu_get_screenshot ops (world s)")
  case (Pair ri w1)
  show ?thesis
  proof (cases ri)
    case (Inl e)
    with Pair req show ?thesis by (auto simp: summary_request_screenshot_raises)
  next
    case (Inr img)
    obtain res w2 where c: "backend_chat ops
        (system_turn # map flatten_message (history s) @ [request_turn]) None w1 = (res, w2)"
      by (cases "backend_chat ops
        (system_turn # map flatten_message (history s) @ [request_turn]) None w1")
    from Pair Inr have shot: "emu_get_screenshot ops (world s) = (Inr img, w1)" by simp
    from req wf show ?thesis
      unfolding summary_request_eq [OF wf shot c] by (auto simp: wf_agent_def)
  qed
qed

lemma summarize_history_inversion:
  assumes wf: "wf_agent s" and sum: "summarize_history ops s = (Inr u, s2)"
  shows "\<exists>img w1 res w2 response.
           emu_get_screenshot ops (world s) = (Inr img, w1)
           \<and> backend_chat ops (system_turn # map flatten_message (history s) @ [request_turn])
                None w1 = (res, w2)
           \<and> adapter_result res = Inr response"
proof (cases "emu_get_screenshot ops (world s)")
  case (Pair ri w1)
  show ?thesis
  proof (cases ri)
    case (Inl e)
    with Pair sum show ?thesis
      by (simp add: summarize_history_def bnd_def summary_request_screenshot_raises)
  next
    case (Inr img)
    obtain res w2 where c: "backend_chat ops
        (system_turn # map flatten_message (history s) @ [request_turn]) None w1 = (res, w2)"
      by (cases "backend_chat ops
        (system_turn # map flatten_message (history s) @ [request_turn]) None w1")
    from Pair Inr have shot: "emu_get_screenshot ops (world s) = (Inr img, w1)" by simp
    from sum obtain response where "adapter_result res = Inr response"
      unfolding summarize_history_def bnd_def summary_request_eq [OF wf shot c]
      by (cases "adapter_result res") auto
    with shot c show ?thesis by blast
  qed
qed

text \<open>
  C9. \<open>summarize_history\<close> appends the summarization request to the list that
  \<open>_format_messages_for_ollama\<close> has just built, which is a new list and not the list
  \<open>self.message_history\<close> refers to. Through the whole request phase, whatever its
  outcome, the attribute refers to the same list and that list has the same elements.
  The list sent to the backend is the system prompt, the flattened history and the
  request. When \<open>summarize_history\<close> returns, the attribute refers to another, new list
  of one turn, which is not the request; the old list still has its elements.
\<close>

theorem summary_request_on_a_copy:
  "(wf_agent s \<and> summary_request ops s = (r, s1) \<longrightarrow>
      message_history s1 = message_history s \<and> history s1 = history s)
   \<and> (wf_agent s \<and> format_messages_for_ollama s = (Inr messages, s0) \<longrightarrow>
        messages \<noteq> message_history s0
        \<and> history s0 = history s
        \<and> heap s0 messages = system_turn # map flatten_message (history s)
        \<and> history (snd (list_append messages request_turn s0)) = history s
        \<and> heap (snd (list_append messages request_turn s0)) messages
            = system_turn # map flatten_message (history s) @ [request_turn])
   \<and> (wf_agent s \<and> summarize_history ops s = (Inr u, s2) \<longrightarrow>
        calls s2 = calls s @ [EmuGetScreenshot,
          BackendChat (system_turn # map flatten_message (history s) @ [request_turn]) None]
        \<and> length (history s2) = 1
        \<and> request_turn \<notin> set (history s2)
        \<and> message_history s2 \<noteq> message_history s
        \<and> heap s2 (message_history s) = history s)"
proof (intro conjI impI)
  assume a: "wf_agent s \<and> summary_request ops s = (r, s1)"
  with summary_request_history [of s ops r s1]
  show "message_history s1 = message_history s" and "history s1 = history s"
    by (simp_all add: history_def)
next
  assume a: "wf_agent s \<and> format_messages_for_ollama s = (Inr messages, s0)"
  then have wf: "wf_agent s" and f: "format_messages_for_ollama s = (Inr messages, s0)"
    by simp_all
  from f [unfolded format_messages_eq [OF wf]] have m: "messages = next_addr s" by simp
  from f [unfolded format_messages_eq [OF wf]]
  have s0: "s0 = s\<lparr>heap := (heap s)(next_addr s := system_turn # map flatten_message (history s)),
              next_addr := Suc (next_addr s)\<rparr>"
    by (elim Pair_inject) (rule sym)
  from wf show "messages \<noteq> message_history s0" unfolding m s0 by (simp add: wf_agent_def)
  from wf show "history s0 = history s" unfolding s0 by (simp add: history_def wf_agent_def)
  show "heap s0 messages = system_turn # map flatten_message (history s)"
    unfolding m s0 by simp
  from wf show "history (snd (list_append messages request_turn s0)) = history s"
    unfolding m s0 by (simp add: list_append_def history_def wf_agent_def)
  show "heap (snd (list_append messages request_turn s0)) messages
            = system_turn # map flatten_message (history s) @ [request_turn]"
    unfolding m s0 by (simp add: list_append_def)
next
  assume a: "wf_agent s \<and> summarize_history ops s = (Inr u, s2)"
  then have wf: "wf_agent s" and sum: "summarize_history ops s = (Inr u, s2)" by simp_all
  from summarize_history_inversion [OF wf sum] obtain img w1 res w2 response where
    shot: "emu_get_screenshot ops (world s) = (Inr img, w1)"
    and c: "backend_chat ops (system_turn # map flatten_message (history s) @ [request_turn])
                None w1 = (res, w2)"
    and reply: "adapter_result res = Inr response" by blast
  note e = sum [unfolded summarize_history_eq [OF wf shot c reply]]
  from e show "calls s2 = calls s @ [EmuGetScreenshot,
          BackendChat (system_turn # map flatten_message (history s) @ [request_turn]) None]"
    by auto
  from e have h: "history s2 = [summary_turn (max_history s) (response_content response)
                     (get_screenshot_base64 ops img (Some 2))]"
    by (auto simp: history_def)
  from h show "length (history s2) = 1" by simp
  from h show "request_turn \<notin> set (history s2)"
    by (simp add: request_turn_def summary_turn_def)
  from e wf show "message_history s2 \<noteq> message_history s" by (auto simp: wf_agent_def)
  from e wf show "heap s2 (message_history s) = history s"
    by (auto simp: wf_agent_def history_def)
qed

theorem summary_request_on_a_copy_witness:
  "wf_agent (init_agent ())
   \<and> fst (format_messages_for_ollama (init_agent ())) = Inr 1
   \<and> message_history (snd (format_messages_for_ollama (init_agent ()))) = 0
   \<and> fst (summarize_history (fake_collaborators (backend_says ''ok'')) (init_agent ())) = Inr ()
   \<and> heap (snd (summarize_history (fake_collaborators (backend_says ''ok'')) (init_agent ()))) 0 = []
   \<and> message_history (snd (summarize_history (fake_collaborators (backend_says ''ok'')) (init_agent ()))) = 2
   \<and> message_history (snd (summary_request (fake_collaborators (backend_says ''ok'')) (init_agent ()))) = 0"
proof -
  let ?ops = "fake_collaborators (backend_says ''ok'')"
  let ?s = "init_agent ()"
  have wf: "wf_agent ?s" by (rule wf_init_agent)
  have f: "format_messages_for_ollama ?s
      = (Inr 1, snd (format_messages_for_ollama ?s))"
    by (simp add: format_messages_eq [OF wf]) (simp add: init_agent_def)
  have e: "summarize_history ?ops ?s = (Inr (), snd (summarize_history ?ops ?s))"
    by (simp add: summarize_fake)
  have q: "summary_request ?ops ?s
      = (fst (summary_request ?ops ?s), snd (summary_request ?ops ?s))" by simp
  note t = summary_request_on_a_copy [where ops = ?ops and s = ?s
      and r = "fst (summary_request ?ops ?s)" and ?s1.0 = "snd (summary_request ?ops ?s)"
      and messages = 1 and ?s0.0 = "snd (format_messages_for_ollama ?s)"
      and u = "()" and ?s2.0 = "snd (summarize_history ?ops ?s)"]
  from t [THEN conjunct1] wf q
  have 1: "message_history (snd (summary_request ?ops ?s)) = 0"
    by (simp add: init_agent_def)
  from t [THEN conjunct2, THEN conjunct1] wf f
  have 2: "message_history (snd (format_messages_for_ollama ?s)) \<noteq> 1" by simp
  from t [THEN conjunct2, THEN conjunct2] wf e
  have 3: "heap (snd (summarize_history ?ops ?s)) (message_history ?s) = history ?s" by simp
  have 4: "message_history (snd (format_messages_for_ollama ?s)) = 0"
    by (simp add: format_messages_eq [OF wf]) (simp add: init_agent_def)
  have 5: "message_history (snd (summarize_history ?ops ?s)) = 2"
    by (simp add: summarize_fake)
  have mh0: "message_history ?s = 0" by (simp add: init_agent_def)
  note 3 [unfolded mh0 history_init_agent]
  moreover from f have "fst (format_messages_for_ollama ?s) = Inr 1" by (metis fst_conv)
  moreover from e have "fst (summarize_history ?ops ?s) = Inr ()" by (metis fst_conv)
  ultimately show ?thesis using 1 4 5 wf by simp
qed

section \<open>One step of the loop\<close>

lemma history_frame [simp]:
  "history (s\<lparr>world := w\<rparr>) = history s"
  "history (s\<lparr>calls := cs\<rparr>) = history s"
  by (simp_all add: history_def)

lemma collab_call_core: "collab_call c operation s = (r, s') \<Longrightarrow> core s' = core s"
  by (auto simp: collab_call_eq core_def)

lemma registry_core:
  assumes "get_available_functions ops n = Some f" and "f kw s = (r, s')"
  shows "core s' = core s"
  using assms
  by (auto simp: get_available_functions_def collab_call_eq core_def raise_def
      split: if_splits list.splits prod.splits)

lemma tool_loop_core:
  assumes "\<And>n f kw s r s'. fns n = Some f \<Longrightarrow> f kw s = (r, s') \<Longrightarrow> core s' = core s"
    and "tool_loop fns tcs results s = (r, s')"
  shows "core s' = core s"
  using assms(2)
proof (induction tcs arbitrary: results s)
  case Nil
  then show ?case by simp
next
  case (Cons t rest)
  show ?case
  proof (cases "fns (fn_name t)")
    case None
    with Cons show ?thesis by simp
  next
    case (Some f)
    obtain res s1 where f: "f (fn_arguments t) s = (res, s1)" by (cases "f (fn_arguments t) s")
    from assms(1) [OF Some f] have c: "core s1 = core s" .
    from Cons.prems Some f Cons.IH c show ?thesis
      by (cases res) (auto split: pyexc.splits)
  qed
qed

lemma call_tool_core:
  assumes "call_tool_from_response response (get_available_functions ops) s = (r, s')"
  shows "core s' = core s"
proof (cases response)
  case (Dict d)
  with assms show ?thesis by (simp add: call_tool_dict)
next
  case (ChatResponse m)
  show ?thesis
  proof (cases "tool_calls m")
    case None
    with assms ChatResponse show ?thesis by (simp add: call_tool_no_calls)
  next
    case (Some tcs)
    from call_tool_object [OF Some, of "get_available_functions ops" s] assms ChatResponse
    have "tool_loop (get_available_functions ops) tcs [] s = (r, s')" by simp
    then show ?thesis using registry_core tool_loop_core by blast
  qed
qed

lemma parse_and_execute_core:
  assumes "parse_and_execute_text_response ops txt s = (r, s')"
  shows "core s' = core s"
  using assms
  by (auto simp: parse_and_execute_text_response_def bnd_def collab_call_eq ret_def core_def
      split: if_splits sum.splits)

lemma append_history_eq:
  "append_history t s = (Inr (), s\<lparr>heap := (heap s)(message_history s := history s @ [t])\<rparr>)"
  by (simp add: append_history_def list_append_def history_def)

lemma process_response_effect:
  assumes "process_response ops response s = (r, s')"
  shows "core s' = core (s\<lparr>heap := (heap s)(message_history s := history s @ [assistant_turn response])\<rparr>)"
proof -
  let ?s1 = "s\<lparr>heap := (heap s)(message_history s := history s @ [assistant_turn response])\<rparr>"
  obtain r2 s2 where ct:
    "call_tool_from_response response (get_available_functions ops) ?s1 = (r2, s2)"
    by (cases "call_tool_from_response response (get_available_functions ops) ?s1")
  from call_tool_core [OF ct] have c2: "core s2 = core ?s1" .
  show ?thesis
  proof (cases r2)
    case (Inl e)
    with assms ct c2 show ?thesis
      by (simp add: process_response_def bnd_def append_history_eq assistant_turn_def)
  next
    case (Inr results)
    show ?thesis
    proof (cases "results = []")
      case True
      with assms ct Inr
      have "parse_and_execute_text_response ops (response_content response) s2 = (r, s')"
        by (simp add: process_response_def bnd_def append_history_eq assistant_turn_def)
      from parse_and_execute_core [OF this] c2 show ?thesis by simp
    next
      case False
      with assms ct Inr c2 show ?thesis
        by (simp add: process_response_def bnd_def append_history_eq assistant_turn_def ret_def)
    qed
  qed
qed

lemma get_next_action_effect:
  assumes wf: "wf_agent s" and g: "get_next_action ops s = (Inr response, s')"
  shows "\<exists>location coordinates screenshot.
           core s' = core (s\<lparr>heap := (heap s)
               (message_history s := history s @ [user_turn ops location coordinates screenshot],
                next_addr s := system_turn # map flatten_message
                  (history s @ [user_turn ops location coordinates screenshot])),
             next_addr := Suc (next_addr s)\<rparr>)"
proof -
  obtain r1 w1 where a: "emu_get_screenshot ops (world s) = (r1, w1)"
    by (cases "emu_get_screenshot ops (world s)")
  obtain r2 w2 where b: "emu_get_coordinates ops w1 = (r2, w2)"
    by (cases "emu_get_coordinates ops w1")
  obtain r3 w3 where c: "emu_get_location ops w2 = (r3, w3)"
    by (cases "emu_get_location ops w2")
  from g a obtain screenshot where r1: "r1 = Inr screenshot"
    by (cases r1) (auto simp: get_next_action_def bnd_def collab_call_eq)
  from g a b r1 obtain coordinates where r2: "r2 = Inr coordinates"
    by (cases r2) (auto simp: get_next_action_def bnd_def collab_call_eq)
  from g a b c r1 r2 obtain location where r3: "r3 = Inr location"
    by (cases r3) (auto simp: get_next_action_def bnd_def collab_call_eq)
  let ?u = "user_turn ops location coordinates screenshot"
  let ?s4 = "s\<lparr>world := w3,
      calls := calls s @ [EmuGetScreenshot, EmuGetCoordinates, EmuGetLocation],
      heap := (heap s)(message_history s := history s @ [?u])\<rparr>"
  have wf4: "wf_agent ?s4" using wf by (simp add: wf_agent_def)
  have h4: "history ?s4 = history s @ [?u]" by (simp add: history_def)
  from g a b c r1 r2 r3
  have "bnd format_messages_for_ollama
          (\<lambda>messages. chat_via_client ops messages (Some AVAILABLE_TOOLS)) ?s4 = (Inr response, s')"
    by (simp add: get_next_action_def bnd_def collab_call_eq append_history_eq user_turn_def)
  then have "core s' = core (snd (format_messages_for_ollama ?s4))"
    unfolding bnd_def format_messages_eq [OF wf4] chat_via_client_eq
    by (auto simp: core_def)
  then show ?thesis
    unfolding format_messages_eq [OF wf4] h4 by (auto simp: core_def)
qed

lemma core_fields:
  assumes "core s' = core s"
  shows "running s' = running s" and "max_history s' = max_history s"
    and "message_history s' = message_history s" and "heap s' = heap s"
    and "next_addr s' = next_addr s" and "history s' = history s" and "wf_agent s' = wf_agent s"
  using assms by (simp_all add: core_def history_def wf_agent_def)

lemma step_actions_effect:
  assumes wf: "wf_agent s" and st: "step_actions ops s = (Inr u, s')"
  shows "\<exists>tu ta. role tu = ''user'' \<and> role ta = ''assistant''
           \<and> history s' = history s @ [tu, ta]
           \<and> wf_agent s' \<and> max_history s' = max_history s \<and> running s' = running s"
proof -
  obtain r1 s1 where g: "get_next_action ops s = (r1, s1)" by (cases "get_next_action ops s")
  with st obtain response where r1: "r1 = Inr response"
    by (cases r1) (auto simp: step_actions_def bnd_def)
  from st g r1 have p: "process_response ops response s1 = (Inr u, s')"
    by (simp add: step_actions_def bnd_def)
  from get_next_action_effect [OF wf g [unfolded r1]] obtain location coordinates screenshot where
    c1: "core s1 = core (s\<lparr>heap := (heap s)
               (message_history s := history s @ [user_turn ops location coordinates screenshot],
                next_addr s := system_turn # map flatten_message
                  (history s @ [user_turn ops location coordinates screenshot])),
             next_addr := Suc (next_addr s)\<rparr>)" by blast
  let ?tu = "user_turn ops location coordinates screenshot"
  from wf have ne: "message_history s \<noteq> next_addr s" by (simp add: wf_agent_def)
  from c1 ne have h1: "history s1 = history s @ [?tu]"
    and wf1: "wf_agent s1" and m1: "max_history s1 = max_history s"
    and ru1: "running s1 = running s"
    using wf by (auto simp: core_def history_def wf_agent_def)
  note c2 = process_response_effect [OF p]
  from c2 have "history s' = history s1 @ [assistant_turn response]"
    and "wf_agent s'" and "max_history s' = max_history s1" and "running s' = running s1"
    using wf1 by (auto simp: core_def history_def wf_agent_def)
  with h1 m1 ru1 have "role ?tu = ''user'' \<and> role (assistant_turn response) = ''assistant''
           \<and> history s' = history s @ [?tu, assistant_turn response]
           \<and> wf_agent s' \<and> max_history s' = max_history s \<and> running s' = running s"
    by (simp add: user_turn_def assistant_turn_def)
  then show ?thesis by blast
qed

lemma summarize_history_wf:
  assumes wf: "wf_agent s" and sum: "summarize_history ops s = (Inr u, s')"
  shows "wf_agent s'"
proof -
  from summarize_history_inversion [OF wf sum] obtain img w1 res w2 response where
    shot: "emu_get_screenshot ops (world s) = (Inr img, w1)"
    and c: "backend_chat ops (system_turn # map flatten_message (history s) @ [request_turn])
                None w1 = (res, w2)"
    and reply: "adapter_result res = Inr response" by blast
  from sum [unfolded summarize_history_eq [OF wf shot c reply]] show ?thesis
    by (auto simp: wf_agent_def)
qed

lemma summarize_check_effect:
  assumes wf: "wf_agent s" and ch: "summarize_check ops s = (Inr u, s')"
  shows "(if 2 * max_history s < int (length (history s)) then length (history s') = 1
          else history s' = history s)
         \<and> wf_agent s' \<and> max_history s' = max_history s \<and> running s' = running s"
proof (cases "2 * max_history s < int (length (history s))")
  case True
  with ch have sum: "summarize_history ops s = (Inr u, s')"
    by (simp add: summarize_check_def mult.commute)
  from summarize_history_result [OF sum] summarize_history_wf [OF wf sum] True
  show ?thesis by auto
next
  case False
  with ch have "s' = s" by (simp add: summarize_check_def mult.commute)
  with False wf show ?thesis by simp
qed

lemma loop_body_effect:
  assumes wf: "wf_agent s" and b: "loop_body ops s = (Inr u, s')"
  shows "\<exists>mid. step_actions ops s = (Inr (), mid) \<and> summarize_check ops mid = (Inr (), s')
           \<and> wf_agent mid \<and> length (history mid) = length (history s) + 2
           \<and> max_history mid = max_history s
           \<and> wf_agent s' \<and> max_history s' = max_history s \<and> running s' = running s"
proof -
  obtain r1 mid where st: "step_actions ops s = (r1, mid)" by (cases "step_actions ops s")
  with b have r1: "r1 = Inr ()" by (cases r1) (auto simp: loop_body_def bnd_def)
  from b st r1 have ch: "summarize_check ops mid = (Inr (), s')"
    by (simp add: loop_body_def bnd_def)
  from step_actions_effect [OF wf st [unfolded r1]]
  have m: "wf_agent mid" "length (history mid) = length (history s) + 2"
    "max_history mid = max_history s" "running mid = running s" by auto
  from summarize_check_effect [OF m(1) ch] m st r1 ch show ?thesis by auto
qed

lemma run_start_effect:
  assumes wf: "wf_agent s" and rs: "run_start ops s = (Inr u, s')"
  shows "running s' \<and> wf_agent s' \<and> max_history s' = max_history s
         \<and> length (history s') = length (history s) + 1"
  using assms
  by (auto simp: run_start_def send_initial_observation_def bnd_def collab_call_eq
      append_history_eq wf_agent_def history_def split: sum.splits prod.splits)

section \<open>The loop of \<open>run\<close>\<close>

lemma run_loop_done:
  "\<not> (running s \<and> k < n) \<Longrightarrow> run_loop ops n k s = (Inr k, s)"
  by (subst run_loop.simps) auto

lemma run_loop_step:
  "running s \<Longrightarrow> k < n \<Longrightarrow>
   run_loop ops n k s =
     (case loop_body ops s of
        (Inl e, s') \<Rightarrow> (Inl e, s')
      | (Inr u, s') \<Rightarrow> run_loop ops n (k + 1) s')"
  by (subst run_loop.simps) simp

lemma run_loop_iter:
  assumes "running s" and "wf_agent s" and "k \<le> n"
  shows "run_loop ops n k s =
           (case body_iter ops (nat (n - k)) s of
              (Inl e, s') \<Rightarrow> (Inl e, s')
            | (Inr u, s') \<Rightarrow> (Inr n, s'))"
  using assms
proof (induction "nat (n - k)" arbitrary: k s)
  case 0
  then have "k = n" by simp
  then show ?case by (simp add: run_loop_done)
next
  case (Suc j)
  then have lt: "k < n" and j: "j = nat (n - (k + 1))" and le: "k + 1 \<le> n" by simp_all
  from Suc.hyps(2) have n: "nat (n - k) = Suc j" by simp
  show ?case
  proof (cases "loop_body ops s")
    case (Pair r s1)
    show ?thesis
    proof (cases r)
      case (Inl e)
      with Pair Suc.prems lt show ?thesis
        unfolding n by (simp add: run_loop_step)
    next
      case (Inr u)
      with Pair have b: "loop_body ops s = (Inr u, s1)" by simp
      from loop_body_effect [OF Suc.prems(2) b] Suc.prems(1)
      have "running s1" and "wf_agent s1" by auto
      from Suc.hyps(1) [OF j this le] b Suc.prems lt show ?thesis
        unfolding n by (simp add: run_loop_step j)
    qed
  qed
qed

lemma run_eq:
  assumes "wf_agent s" and "0 \<le> n"
  shows "run ops n s =
           bnd (run_start ops) (\<lambda>_. bnd (body_iter ops (nat n)) (\<lambda>_. ret n)) s"
proof (cases "run_start ops s")
  case (Pair r s1)
  show ?thesis
  proof (cases r)
    case (Inl e)
    with Pair show ?thesis by (simp add: run_def bnd_def)
  next
    case (Inr u)
    with Pair have rs: "run_start ops s = (Inr u, s1)" by simp
    from run_start_effect [OF assms(1) rs] have "running s1" "wf_agent s1" by auto
    from run_loop_iter [OF this assms(2), of ops] rs show ?thesis
      by (simp add: run_def bnd_def ret_def split: prod.splits sum.splits)
  qed
qed

lemma run_loop_states:
  assumes "run_loop ops n k s = (Inr k', s')" and "loop_states ops n s0 k s"
  shows "loop_states ops n s0 k' s'"
  using assms
proof (induction ops n k s rule: run_loop.induct)
  case (1 ops num_steps steps_completed s)
  show ?case
  proof (cases "running s \<and> steps_completed < num_steps")
    case False
    with "1.prems" show ?thesis by (simp add: run_loop_done)
  next
    case True
    obtain r s1 where b: "loop_body ops s = (r, s1)" by (cases "loop_body ops s")
    from "1.prems"(1) True b obtain u where r: "r = Inr u"
      by (cases r) (auto simp: run_loop_step)
    from "1.prems"(1) True b r
    have rec: "run_loop ops num_steps (steps_completed + 1) s1 = (Inr k', s')"
      by (simp add: run_loop_step)
    from "1.prems"(2) True b r have "loop_states ops num_steps s0 (steps_completed + 1) s1"
      by (auto intro: loop_states.iteration)
    with "1.IH" [OF True b [symmetric] _ rec] r show ?thesis by simp
  qed
qed

lemma run_loop_states_final:
  assumes "run ops n s0 = (Inr k, s)"
  shows "loop_states ops n s0 k s"
proof -
  obtain r s1 where rs: "run_start ops s0 = (r, s1)" by (cases "run_start ops s0")
  with assms obtain u where r: "r = Inr u" by (cases r) (auto simp: run_def bnd_def)
  from assms rs r have "run_loop ops n 0 s1 = (Inr k, s)" by (simp add: run_def bnd_def)
  moreover from rs r have "loop_states ops n s0 0 s1" by (auto intro: loop_states.start)
  ultimately show ?thesis by (rule run_loop_states)
qed

lemma loop_states_invariant:
  assumes fresh: "history s0 = []" "wf_agent s0" "1 \<le> max_history s0"
    and ls: "loop_states ops n s0 k s"
  shows "wf_agent s \<and> max_history s = max_history s0
         \<and> odd (length (history s)) \<and> int (length (history s)) \<le> 2 * max_history s0"
  using ls
proof (induction rule: loop_states.induct)
  case (start u s1)
  from run_start_effect [OF fresh(2) start] fresh show ?case by simp
next
  case (iteration k s u s')
  from iteration.IH have wf: "wf_agent s" and mh: "max_history s = max_history s0"
    and od: "odd (length (history s))" by simp_all
  from loop_body_effect [OF wf iteration.hyps(4)] obtain mid where
    ch: "summarize_check ops mid = (Inr (), s')" and wfm: "wf_agent mid"
    and len: "length (history mid) = length (history s) + 2"
    and mhm: "max_history mid = max_history s"
    and post: "wf_agent s'" "max_history s' = max_history s" by blast
  from summarize_check_effect [OF wfm ch]
  have "if 2 * max_history mid < int (length (history mid)) then length (history s') = 1
        else history s' = history mid" by simp
  with len od mh mhm post fresh(3) show ?case
    by (auto split: if_splits)
qed

text \<open>
  C10. In a run of a new agent (empty history, \<open>max_history\<close> at least 1; it is 10), at
  every point between two steps, which is after the initial observation and after each
  step's summarization check, the length of the history is odd and at most
  \<open>2 * max_history\<close>; at each summarization check, which is after the step has appended
  its user turn and its assistant turn, it is odd and at most \<open>2 * max_history + 1\<close>.
  The state in which \<open>run\<close> returns is such a point.
\<close>

theorem history_length_invariant:
  "history s0 = [] \<and> wf_agent s0 \<and> 1 \<le> max_history s0 \<longrightarrow>
     (loop_states ops n s0 k s \<longrightarrow>
        odd (length (history s)) \<and> int (length (history s)) \<le> 2 * max_history s0)
     \<and> (at_check ops n s0 mid \<longrightarrow>
        odd (length (history mid)) \<and> int (length (history mid)) \<le> 2 * max_history s0 + 1)
     \<and> (run ops n s0 = (Inr k', s') \<longrightarrow>
        loop_states ops n s0 k' s'
        \<and> odd (length (history s')) \<and> int (length (history s')) \<le> 2 * max_history s0)"
proof (intro impI conjI)
  assume a: "history s0 = [] \<and> wf_agent s0 \<and> 1 \<le> max_history s0"
  then have fresh: "history s0 = []" "wf_agent s0" "1 \<le> max_history s0" by simp_all
  {
    assume "loop_states ops n s0 k s"
    from loop_states_invariant [OF fresh this]
    show "odd (length (history s))" and "int (length (history s)) \<le> 2 * max_history s0"
      by simp_all
  }
  {
    assume "at_check ops n s0 mid"
    then obtain j t u where ls: "loop_states ops n s0 j t"
      and st: "step_actions ops t = (Inr u, mid)" unfolding at_check_def by blast
    from loop_states_invariant [OF fresh ls] have wf: "wf_agent t"
      and od: "odd (length (history t))"
      and le: "int (length (history t)) \<le> 2 * max_history s0" by simp_all
    from step_actions_effect [OF wf st]
    have len: "length (history mid) = length (history t) + 2" by auto
    from len od show "odd (length (history mid))" by simp
    from len le od show "int (length (history mid)) \<le> 2 * max_history s0 + 1"
      by presburger
  }
  {
    assume "run ops n s0 = (Inr k', s')"
    then show ls: "loop_states ops n s0 k' s'" by (rule run_loop_states_final)
    from loop_states_invariant [OF fresh ls]
    show "odd (length (history s'))" and "int (length (history s')) \<le> 2 * max_history s0"
      by simp_all
  }
qed

section \<open>Runs on collaborators that return\<close>

lemma collaborators_returnD:
  assumes "collaborators_return ops"
  shows "\<exists>x w'. emu_initialize ops w = (Inr x, w')"
    and "\<exists>x w'. emu_get_screenshot ops w = (Inr x, w')"
    and "\<exists>x w'. emu_get_coordinates ops w = (Inr x, w')"
    and "\<exists>x w'. emu_get_location ops w = (Inr x, w')"
    and "\<exists>x w'. emu_press_buttons ops kw w = (Inr x, w')"
    and "\<exists>m w'. backend_chat ops msgs tools w = (Inr m, w')"
  using assms unfolding collaborators_return_def emulator_returns_def backend_returns_def
  by blast+

lemma run_start_returns:
  assumes R: "collaborators_return ops"
  shows "\<exists>s1. run_start ops s = (Inr (), s1)"
proof -
  obtain x w1 where a: "emu_initialize ops (world s) = (Inr x, w1)"
    using collaborators_returnD(1) [OF R] by blast
  obtain img w2 where b: "emu_get_screenshot ops w1 = (Inr img, w2)"
    using collaborators_returnD(2) [OF R] by blast
  from a b show ?thesis
    by (simp add: run_start_def send_initial_observation_def bnd_def collab_call_eq
        append_history_eq)
qed

lemma get_next_action_returns:
  assumes R: "collaborators_return ops" and wf: "wf_agent s"
  shows "\<exists>m s1. get_next_action ops s = (Inr (ChatResponse m), s1)"
proof -
  obtain img w1 where a: "emu_get_screenshot ops (world s) = (Inr img, w1)"
    using collaborators_returnD(2) [OF R] by blast
  obtain coordinates w2 where b: "emu_get_coordinates ops w1 = (Inr coordinates, w2)"
    using collaborators_returnD(3) [OF R] by blast
  obtain location w3 where c: "emu_get_location ops w2 = (Inr location, w3)"
    using collaborators_returnD(4) [OF R] by blast
  let ?u = "user_turn ops location coordinates img"
  let ?s4 = "s\<lparr>world := w3,
      calls := calls s @ [EmuGetScreenshot, EmuGetCoordinates, EmuGetLocation],
      heap := (heap s)(message_history s := history s @ [?u])\<rparr>"
  have wf4: "wf_agent ?s4" using wf by (simp add: wf_agent_def)
  let ?msgs = "heap (snd (format_messages_for_ollama ?s4)) (next_addr ?s4)"
  obtain m w4 where d: "backend_chat ops ?msgs (normalize_tools (Some AVAILABLE_TOOLS)) w3 = (Inr m, w4)"
    using collaborators_returnD(6) [OF R] by blast
  have e: "get_next_action ops s =
      bnd format_messages_for_ollama
          (\<lambda>messages. chat_via_client ops messages (Some AVAILABLE_TOOLS)) ?s4"
    using a b c
    by (simp add: get_next_action_def bnd_def collab_call_eq append_history_eq user_turn_def)
  from d show ?thesis
    unfolding e bnd_def format_messages_eq [OF wf4] chat_via_client_eq
    by (simp add: adapter_result_def)
qed

lemma no_interrupt_registry:
  assumes R: "collaborators_return ops"
  shows "no_interrupt (get_available_functions ops)"
proof -
  have "fst (g kw x) \<noteq> Inl KeyboardInterrupt"
    if "get_available_functions ops n = Some g" for n g kw x
  proof -
    have p: "fst (collab_call c (emu_press_buttons ops a) x) \<noteq> Inl KeyboardInterrupt" for c a
      using collaborators_returnD(5) [OF R, of a "world x"] by (auto simp: collab_call_eq)
    from that p show ?thesis
      by (auto simp: get_available_functions_def raise_def split: if_splits list.splits prod.splits)
  qed
  then show ?thesis unfolding no_interrupt_def by blast
qed

lemma process_response_returns:
  assumes R: "collaborators_return ops"
  shows "\<exists>s'. process_response ops (ChatResponse m) s = (Inr (), s')"
proof -
  let ?s1 = "s\<lparr>heap := (heap s)(message_history s := history s @ [assistant_turn (ChatResponse m)])\<rparr>"
  have "\<exists>rs s2. call_tool_from_response (ChatResponse m) (get_available_functions ops) ?s1 = (Inr rs, s2)"
  proof (cases "tool_calls m")
    case None
    then show ?thesis by (simp add: call_tool_no_calls)
  next
    case (Some tcs)
    then show ?thesis
      using tool_loop_returns [OF no_interrupt_registry [OF R]]
        call_tool_object [of m tcs "get_available_functions ops" ?s1] by simp
  qed
  then obtain rs s2 where ct:
    "call_tool_from_response (ChatResponse m) (get_available_functions ops) ?s1 = (Inr rs, s2)"
    by blast
  show ?thesis
  proof (cases "rs = []")
    case False
    with ct show ?thesis
      by (simp add: process_response_def bnd_def append_history_eq assistant_turn_def ret_def)
  next
    case True
    have "\<exists>s'. parse_and_execute_text_response ops c s2 = (Inr (), s')" for c
    proof -
      obtain x w' where "emu_press_buttons ops
          [(''buttons'', JList (map JStr (buttons_in_text c)))] (world s2) = (Inr x, w')"
        using collaborators_returnD(5) [OF R] by blast
      then show ?thesis
        by (auto simp: parse_and_execute_text_response_def bnd_def collab_call_eq ret_def)
    qed
    with ct True show ?thesis
      by (simp add: process_response_def bnd_def append_history_eq assistant_turn_def)
  qed
qed

lemma step_actions_returns:
  assumes R: "collaborators_return ops" and wf: "wf_agent s"
  shows "\<exists>mid. step_actions ops s = (Inr (), mid)"
proof -
  from get_next_action_returns [OF R wf] obtain m s1 where
    g: "get_next_action ops s = (Inr (ChatResponse m), s1)" by blast
  from process_response_returns [OF R, of m s1] obtain s' where
    "process_response ops (ChatResponse m) s1 = (Inr (), s')" by blast
  with g show ?thesis by (simp add: step_actions_def bnd_def)
qed

lemma summarize_check_returns:
  assumes R: "collaborators_return ops" and wf: "wf_agent s"
  shows "\<exists>s'. summarize_check ops s = (Inr (), s')"
proof (cases "2 * max_history s < int (length (history s))")
  case False
  then show ?thesis by (simp add: summarize_check_def mult.commute)
next
  case True
  obtain img w1 where a: "emu_get_screenshot ops (world s) = (Inr img, w1)"
    using collaborators_returnD(2) [OF R] by blast
  obtain m w2 where "backend_chat ops
      (system_turn # map flatten_message (history s) @ [request_turn]) None w1 = (Inr m, w2)"
    using collaborators_returnD(6) [OF R] by blast
  then have "fst (backend_chat ops
      (system_turn # map flatten_message (history s) @ [request_turn]) None w1)
      \<noteq> Inl KeyboardInterrupt" by simp
  from summarize_history_returns [OF wf a this] True show ?thesis
    by (simp add: summarize_check_def mult.commute)
qed

lemma loop_body_returns:
  assumes R: "collaborators_return ops" and wf: "wf_agent s"
  shows "\<exists>s'. loop_body ops s = (Inr (), s')"
proof -
  from step_actions_returns [OF R wf] obtain mid where
    st: "step_actions ops s = (Inr (), mid)" by blast
  from step_actions_effect [OF wf st] have "wf_agent mid" by blast
  from summarize_check_returns [OF R this] obtain s' where
    "summarize_check ops mid = (Inr (), s')" by blast
  with st show ?thesis by (simp add: loop_body_def bnd_def)
qed

lemma body_iter_returns:
  assumes R: "collaborators_return ops" and wf: "wf_agent s"
  shows "\<exists>s'. body_iter ops k s = (Inr (), s')"
  using wf
proof (induction k arbitrary: s)
  case 0
  then show ?case by simp
next
  case (Suc k)
  from loop_body_returns [OF R Suc.prems] obtain s1 where
    b: "loop_body ops s = (Inr (), s1)" by blast
  from loop_body_effect [OF Suc.prems b] have "wf_agent s1" by blast
  from Suc.IH [OF this] b show ?case by simp
qed

lemma run_returns:
  assumes R: "collaborators_return ops" and wf: "wf_agent s" and n: "0 \<le> n"
  shows "\<exists>s'. run ops n s = (Inr n, s')"
proof -
  from run_start_returns [OF R] obtain s1 where rs: "run_start ops s = (Inr (), s1)" by blast
  from run_start_effect [OF wf rs] have "wf_agent s1" by blast
  from body_iter_returns [OF R this] obtain s' where "body_iter ops (nat n) s1 = (Inr (), s')"
    by blast
  with rs show ?thesis unfolding run_eq [OF wf n] by (simp add: bnd_def ret_def)
qed

lemma collaborators_return_fake:
  "collaborators_return (fake_collaborators (backend_says txt))"
  by (simp add: collaborators_return_def emulator_returns_def backend_returns_def
      fake_collaborators_def backend_says_def ret_def)

text \<open>
  The loop on collaborators that return. For a step budget \<open>n\<close> of at least 0, \<open>run\<close>
  is the start, then the body of the loop \<open>n\<close> times, then the return of \<open>n\<close>.
  Each step that returns has appended one user turn and one assistant turn to the
  history before the summarization check. When every call on the emulator returns and
  the backend answers every query, \<open>run\<close> returns \<open>n\<close>.
\<close>

lemma run_on_returning_collaborators:
  "(wf_agent s0 \<and> 1 \<le> n \<and> collaborators_return ops \<longrightarrow>
      (\<exists>s'. run ops n s0 = (Inr n, s') \<and> loop_states ops n s0 n s'))
   \<and> (wf_agent s0 \<and> 0 \<le> n \<longrightarrow>
      run ops n s0 = bnd (run_start ops) (\<lambda>_. bnd (body_iter ops (nat n)) (\<lambda>_. ret n)) s0)
   \<and> (wf_agent s \<and> step_actions ops s = (Inr u, mid) \<longrightarrow>
      (\<exists>tu ta. role tu = ''user'' \<and> role ta = ''assistant''
               \<and> history mid = history s @ [tu, ta]))"
proof (intro conjI impI)
  assume "wf_agent s0 \<and> 1 \<le> n \<and> collaborators_return ops"
  then have "wf_agent s0" "0 \<le> n" "collaborators_return ops" by simp_all
  from run_returns [OF this(3) this(1) this(2)] obtain s' where
    r: "run ops n s0 = (Inr n, s')" by blast
  from run_loop_states_final [OF r] r
  show "\<exists>s'. run ops n s0 = (Inr n, s') \<and> loop_states ops n s0 n s'" by blast
next
  assume "wf_agent s0 \<and> 0 \<le> n"
  then show "run ops n s0 =
      bnd (run_start ops) (\<lambda>_. bnd (body_iter ops (nat n)) (\<lambda>_. ret n)) s0"
    using run_eq by blast
next
  assume "wf_agent s \<and> step_actions ops s = (Inr u, mid)"
  then have "wf_agent s" "step_actions ops s = (Inr u, mid)" by simp_all
  from step_actions_effect [OF this]
  show "\<exists>tu ta. role tu = ''user'' \<and> role ta = ''assistant''
               \<and> history mid = history s @ [tu, ta]" by blast
qed

lemma run_on_returning_collaborators_example:
  "\<exists>s'. run (fake_collaborators (backend_says ''press a'')) 3 (init_agent ()) = (Inr 3, s')
        \<and> wf_agent (init_agent ())
        \<and> collaborators_return (fake_collaborators (backend_says ''press a''))"
proof -
  let ?ops = "fake_collaborators (backend_says ''press a'')"
  have h: "wf_agent (init_agent ()) \<and> (1::int) \<le> 3 \<and> collaborators_return ?ops"
    by (simp add: wf_init_agent collaborators_return_fake)
  from run_on_returning_collaborators [where ?s0.0 = "init_agent ()" and n = 3 and ops = ?ops,
      THEN conjunct1] h
  obtain s' where "run ?ops 3 (init_agent ()) = (Inr 3, s')" by blast
  with h show ?thesis by blast
qed

theorem history_length_invariant_witness:
  "history (init_agent ()) = [] \<and> wf_agent (init_agent ())
   \<and> max_history (init_agent ()) = 10
   \<and> (\<exists>s'. run (fake_collaborators (backend_says ''press a'')) 3 (init_agent ()) = (Inr 3, s')
          \<and> loop_states (fake_collaborators (backend_says ''press a'')) 3 (init_agent ()) 3 s'
          \<and> odd (length (history s')) \<and> int (length (history s')) \<le> 20)
   \<and> (\<exists>mid. at_check (fake_collaborators (backend_says ''press a'')) 3 (init_agent ()) mid
          \<and> odd (length (history mid)) \<and> int (length (history mid)) \<le> 21)"
proof -
  let ?ops = "fake_collaborators (backend_says ''press a'')"
  let ?s0 = "init_agent ()"
  have R: "collaborators_return ?ops" by (rule collaborators_return_fake)
  have mh: "max_history ?s0 = 10" by (simp add: init_agent_def MAX_HISTORY_def)
  have h: "history ?s0 = [] \<and> wf_agent ?s0 \<and> 1 \<le> max_history ?s0"
    by (simp add: history_init_agent wf_init_agent mh)
  from run_returns [OF R wf_init_agent, of 3 "()"]
  obtain s' where r: "run ?ops 3 ?s0 = (Inr 3, s')" by auto
  from run_start_returns [OF R] obtain s1 where rs: "run_start ?ops ?s0 = (Inr (), s1)"
    by blast
  then have ls: "loop_states ?ops 3 ?s0 0 s1" by (rule loop_states.start)
  from run_start_effect [OF wf_init_agent rs] have ru: "running s1" and wf1: "wf_agent s1"
    by simp_all
  from step_actions_returns [OF R wf1] obtain mid where
    st: "step_actions ?ops s1 = (Inr (), mid)" by blast
  from ls ru st have ac: "at_check ?ops 3 ?s0 mid" unfolding at_check_def by force
  note t = history_length_invariant [where ?s0.0 = ?s0 and ops = ?ops and n = 3
      and k' = 3 and s' = s' and mid = mid, rule_format, OF h]
  from t [THEN conjunct2, THEN conjunct2] r
  have 1: "loop_states ?ops 3 ?s0 3 s' \<and> odd (length (history s'))
      \<and> int (length (history s')) \<le> 2 * max_history ?s0" by blast
  from t [THEN conjunct2, THEN conjunct1] ac
  have 2: "odd (length (history mid)) \<and> int (length (history mid)) \<le> 2 * max_history ?s0 + 1"
    by blast
  from 1 2 r ac h mh show ?thesis by auto
qed

section \<open>Runs on a backend that fails\<close>

lemma emulator_returnsD:
  assumes "emulator_returns ops"
  shows "\<exists>x w'. emu_initialize ops w = (Inr x, w')"
    and "\<exists>x w'. emu_get_screenshot ops w = (Inr x, w')"
    and "\<exists>x w'. emu_get_coordinates ops w = (Inr x, w')"
    and "\<exists>x w'. emu_get_location ops w = (Inr x, w')"
    and "\<exists>x w'. emu_press_buttons ops kw w = (Inr x, w')"
  using assms unfolding emulator_returns_def by blast+

lemma run_start_returns_emulator:
  assumes E: "emulator_returns ops"
  shows "\<exists>s1. run_start ops s = (Inr (), s1)"
proof -
  obtain x w1 where a: "emu_initialize ops (world s) = (Inr x, w1)"
    using emulator_returnsD(1) [OF E] by blast
  obtain img w2 where b: "emu_get_screenshot ops w1 = (Inr img, w2)"
    using emulator_returnsD(2) [OF E] by blast
  from a b show ?thesis
    by (simp add: run_start_def send_initial_observation_def bnd_def collab_call_eq
        append_history_eq)
qed

lemma get_next_action_backend_fails:
  assumes E: "emulator_returns ops" and F: "backend_fails ops" and wf: "wf_agent s"
  shows "\<exists>e s1 tu. get_next_action ops s = (Inr (error_reply e), s1)
           \<and> history s1 = history s @ [tu] \<and> calls s1 \<noteq> [] \<and> last (calls s1)
             = BackendChat (system_turn # map flatten_message (history s @ [tu]))
                 (Some AVAILABLE_TOOLS)
           \<and> (\<exists>msgs tools w cls w'. backend_chat ops msgs tools w = (Inl (Exception cls e), w'))"
proof -
  obtain img w1 where a: "emu_get_screenshot ops (world s) = (Inr img, w1)"
    using emulator_returnsD(2) [OF E] by blast
  obtain coordinates w2 where b: "emu_get_coordinates ops w1 = (Inr coordinates, w2)"
    using emulator_returnsD(3) [OF E] by blast
  obtain location w3 where c: "emu_get_location ops w2 = (Inr location, w3)"
    using emulator_returnsD(4) [OF E] by blast
  let ?u = "user_turn ops location coordinates img"
  let ?s4 = "s\<lparr>world := w3,
      calls := calls s @ [EmuGetScreenshot, EmuGetCoordinates, EmuGetLocation],
      heap := (heap s)(message_history s := history s @ [?u])\<rparr>"
  have wf4: "wf_agent ?s4" using wf by (simp add: wf_agent_def)
  have h4: "history ?s4 = history s @ [?u]" by (simp add: history_def)
  have nt: "normalize_tools (Some AVAILABLE_TOOLS) = Some AVAILABLE_TOOLS"
    by (simp add: normalize_tools_def AVAILABLE_TOOLS_def)
  let ?msgs = "system_turn # map flatten_message (history s @ [?u])"
  obtain cls e w4 where d:
    "backend_chat ops ?msgs (Some AVAILABLE_TOOLS) w3 = (Inl (Exception cls e), w4)"
    using F unfolding backend_fails_def by blast
  have e: "get_next_action ops s =
      bnd format_messages_for_ollama
          (\<lambda>messages. chat_via_client ops messages (Some AVAILABLE_TOOLS)) ?s4"
    using a b c
    by (simp add: get_next_action_def bnd_def collab_call_eq append_history_eq user_turn_def)
  from wf have ne: "message_history s \<noteq> next_addr s" by (simp add: wf_agent_def)
  from d ne have "fst (get_next_action ops s) = Inr (error_reply e)
      \<and> history (snd (get_next_action ops s)) = history s @ [?u]
      \<and> calls (snd (get_next_action ops s)) \<noteq> []
      \<and> last (calls (snd (get_next_action ops s))) = BackendChat ?msgs (Some AVAILABLE_TOOLS)"
    unfolding e bnd_def format_messages_eq [OF wf4] h4 chat_via_client_eq
    by (simp add: adapter_result_def nt history_def)
  moreover from d
  have "\<exists>msgs tools w cls w'. backend_chat ops msgs tools w = (Inl (Exception cls e), w')"
    by blast
  ultimately show ?thesis by (metis prod.collapse)
qed

lemma step_actions_backend_fails:
  assumes E: "emulator_returns ops" and F: "backend_fails ops" and wf: "wf_agent s"
  shows "\<exists>s'. step_actions ops s = (Inl attribute_error, s')
           \<and> length (history s') = length (history s) + 2"
proof -
  from get_next_action_backend_fails [OF E F wf] obtain e s1 tu where
    g: "get_next_action ops s = (Inr (error_reply e), s1)"
    and h: "history s1 = history s @ [tu]" by blast
  from g h show ?thesis
    by (simp add: step_actions_def bnd_def error_reply_def process_response_dict history_def)
qed

lemma run_backend_fails:
  assumes E: "emulator_returns ops" and F: "backend_fails ops" and wf: "wf_agent s"
    and n: "1 \<le> n"
  shows "\<exists>s'. run ops n s = (Inl attribute_error, s')
           \<and> length (history s') = length (history s) + 3"
proof -
  from run_start_returns_emulator [OF E] obtain s1 where
    rs: "run_start ops s = (Inr (), s1)" by blast
  from run_start_effect [OF wf rs] have ru: "running s1" and wf1: "wf_agent s1"
    and len: "length (history s1) = length (history s) + 1" by simp_all
  from step_actions_backend_fails [OF E F wf1] obtain s' where
    "step_actions ops s1 = (Inl attribute_error, s')"
    and "length (history s') = length (history s1) + 2" by blast
  with rs ru n len show ?thesis
    by (simp add: run_def bnd_def run_loop_step loop_body_def)
qed

lemma emulator_returns_fake: "emulator_returns (fake_collaborators chat)"
  by (simp add: emulator_returns_def fake_collaborators_def ret_def)

lemma backend_fails_fake: "backend_fails (fake_collaborators backend_down)"
  by (simp add: backend_fails_def fake_collaborators_def backend_down_def raise_def)

text \<open>
  C2. The claim is that when the backend call raises, \<open>chat_via_client\<close> returns a reply
  whose text starts with "Error:" and that has no tool calls, so that the loop continues.
  The reply is as claimed. The loop does not continue: the reply is a \<open>dict\<close>, and the
  step that receives it raises \<open>AttributeError\<close> in \<open>call_tool_from_response\<close>.
  Here the backend refuses the connection.
\<close>

theorem backend_failure_reply_ends_step:
  "chat_via_client (fake_collaborators backend_down) messages tools s
     = (Inr (Dict [(''message'', [(''content'', ''Error: connection refused'')])]),
        s\<lparr>calls := calls s @ [BackendChat (heap s messages) (normalize_tools tools)]\<rparr>)
   \<and> fst (get_next_action (fake_collaborators backend_down)
             (snd (run_start (fake_collaborators backend_down) (init_agent ()))))
       = Inr (Dict [(''message'', [(''content'', ''Error: connection refused'')])])
   \<and> fst (step_actions (fake_collaborators backend_down)
             (snd (run_start (fake_collaborators backend_down) (init_agent ()))))
       = Inl attribute_error"
proof (intro conjI)
  let ?ops = "fake_collaborators backend_down"
  show "chat_via_client ?ops messages tools s
     = (Inr (Dict [(''message'', [(''content'', ''Error: connection refused'')])]),
        s\<lparr>calls := calls s @ [BackendChat (heap s messages) (normalize_tools tools)]\<rparr>)"
    by (simp add: chat_via_client_eq fake_collaborators_def backend_down_def raise_def
        adapter_result_def error_reply_def)
  obtain s1 where rs: "run_start ?ops (init_agent ()) = (Inr (), s1)"
    using run_start_returns_emulator [OF emulator_returns_fake] by blast
  from run_start_effect [OF wf_init_agent rs] have wf1: "wf_agent s1" by simp
  from get_next_action_backend_fails [OF emulator_returns_fake backend_fails_fake wf1]
  obtain e s2 where g: "get_next_action ?ops s1 = (Inr (error_reply e), s2)"
    and x: "\<exists>msgs tools w cls w'.
        backend_chat ?ops msgs tools w = (Inl (Exception cls e), w')" by blast
  from x have "e = ''connection refused''"
    by (simp add: fake_collaborators_def backend_down_def raise_def)
  with g have "fst (get_next_action ?ops s1) = Inr (error_reply ''connection refused'')"
    by simp
  with rs show "fst (get_next_action ?ops (snd (run_start ?ops (init_agent ()))))
       = Inr (Dict [(''message'', [(''content'', ''Error: connection refused'')])])"
    by (simp add: error_reply_def)
  from step_actions_backend_fails [OF emulator_returns_fake backend_fails_fake wf1] rs
  show "fst (step_actions ?ops (snd (run_start ?ops (init_agent ())))) = Inl attribute_error"
    by auto
qed

text \<open>
  C7. The claim is that a run with a step budget of at least 1 that is not interrupted
  performs that many steps and returns that count. With a backend that refuses the
  connection and a budget of 3, the run is not interrupted and does not return: the
  first step appends its two turns (the history then has the initial observation and
  these two) and raises \<open>AttributeError\<close>, which \<open>run\<close> does not catch.
\<close>

theorem run_with_backend_down_raises:
  "fst (run (fake_collaborators backend_down) 3 (init_agent ())) = Inl attribute_error
   \<and> length (history (snd (run (fake_collaborators backend_down) 3 (init_agent ())))) = 3"
proof -
  from run_backend_fails [OF emulator_returns_fake backend_fails_fake wf_init_agent, of 3 "()"]
  show ?thesis by (auto simp: history_init_agent)
qed

section \<open>Teardown\<close>

lemma keeps_bnd:
  assumes "keeps g m" and "\<And>x. keeps g (f x)"
  shows "keeps g (bnd m f)"
  unfolding keeps_def
proof
  fix s
  obtain r s1 where m: "m s = (r, s1)" by (cases "m s")
  from assms(1) m have 1: "g s1 = g s" unfolding keeps_def by (metis snd_conv)
  show "g (snd (bnd m f s)) = g s"
  proof (cases r)
    case (Inl e)
    with m 1 show ?thesis by (simp add: bnd_def)
  next
    case (Inr x)
    from assms(2) [of x] have "g (snd (f x s1)) = g s1" unfolding keeps_def by blast
    with Inr m 1 show ?thesis by (simp add: bnd_def)
  qed
qed

lemma keeps_ret: "keeps g (ret x)"
  by (simp add: keeps_def ret_def)

lemma keeps_raise: "keeps g (raise e)"
  by (simp add: keeps_def raise_def)

lemma keepsD: "keeps g m \<Longrightarrow> g (snd (m s)) = g s"
  by (simp add: keeps_def)

lemma keeps_collab_call: "c \<noteq> EmuStop \<Longrightarrow> keeps stops (collab_call c operation)"
  by (simp add: keeps_def collab_call_eq stops_def)

lemma keeps_chat_via_client: "keeps stops (chat_via_client ops messages tools)"
  by (simp add: keeps_def chat_via_client_eq stops_def)

lemma keeps_list_append: "keeps stops (list_append a x)"
  by (simp add: keeps_def list_append_def stops_def)

lemma keeps_append_history: "keeps stops (append_history t)"
  by (simp add: keeps_def append_history_eq stops_def)

lemma keeps_format_messages: "keeps stops format_messages_for_ollama"
  by (simp add: keeps_def format_messages_raw stops_def)

lemma keeps_get_next_action: "keeps stops (get_next_action ops)"
  unfolding get_next_action_def
  by (intro keeps_bnd keeps_collab_call keeps_append_history keeps_format_messages
      keeps_chat_via_client) simp_all

lemma keeps_registry:
  assumes "get_available_functions ops n = Some f"
  shows "keeps stops (f kw)"
  using assms
  by (auto simp: get_available_functions_def keeps_collab_call keeps_raise
      split: if_splits list.splits prod.splits)

lemma tool_loop_stops:
  assumes "\<And>n f kw. fns n = Some f \<Longrightarrow> keeps stops (f kw)"
  shows "stops (snd (tool_loop fns tcs results s)) = stops s"
proof (induction tcs arbitrary: results s)
  case Nil
  then show ?case by simp
next
  case (Cons t rest)
  show ?case
  proof (cases "fns (fn_name t)")
    case None
    with Cons show ?thesis by simp
  next
    case (Some f)
    obtain res s1 where f: "f (fn_arguments t) s = (res, s1)" by (cases "f (fn_arguments t) s")
    from keepsD [OF assms [OF Some], of "fn_arguments t" s] f have "stops s1 = stops s" by simp
    with Some f Cons.IH show ?thesis
      by (cases res) (auto split: pyexc.splits)
  qed
qed

lemma keeps_call_tool:
  "keeps stops (call_tool_from_response response (get_available_functions ops))"
  unfolding keeps_def
proof
  fix s
  show "stops (snd (call_tool_from_response response (get_available_functions ops) s)) = stops s"
  proof (cases response)
    case (Dict d)
    then show ?thesis by (simp add: call_tool_dict)
  next
    case (ChatResponse m)
    show ?thesis
    proof (cases "tool_calls m")
      case None
      with ChatResponse show ?thesis by (simp add: call_tool_no_calls)
    next
      case (Some tcs)
      have "stops (snd (tool_loop (get_available_functions ops) tcs [] s)) = stops s"
        by (rule tool_loop_stops) (rule keeps_registry)
      with ChatResponse show ?thesis
        using call_tool_object [OF Some, of "get_available_functions ops" s] by simp
    qed
  qed
qed

lemma keeps_parse_and_execute: "keeps stops (parse_and_execute_text_response ops c)"
  unfolding parse_and_execute_text_response_def
  by (auto intro!: keeps_bnd keeps_collab_call keeps_ret)

lemma keeps_process_response: "keeps stops (process_response ops response)"
  unfolding process_response_def
  by (auto intro!: keeps_bnd keeps_append_history keeps_call_tool keeps_ret
      keeps_parse_and_execute)

lemma keeps_step_actions: "keeps stops (step_actions ops)"
  unfolding step_actions_def
  by (intro keeps_bnd keeps_get_next_action keeps_process_response)

lemma keeps_summary_request: "keeps stops (summary_request ops)"
  unfolding summary_request_def
  by (intro keeps_bnd keeps_collab_call keeps_format_messages keeps_list_append
      keeps_chat_via_client keeps_ret) simp_all

lemma keeps_summarize_history: "keeps stops (summarize_history ops)"
proof -
  have "keeps stops (\<lambda>s::'a agent. new_list [t s] s)" for t
    by (simp add: keeps_def new_list_def stops_def)
  moreover have "keeps stops (\<lambda>s::'a agent. (Inr () :: pyexc + unit, s\<lparr>message_history := a\<rparr>))" for a
    by (simp add: keeps_def stops_def)
  ultimately show ?thesis
    unfolding summarize_history_def
    by (auto intro!: keeps_bnd keeps_summary_request)
qed

lemma keeps_summarize_check: "keeps stops (summarize_check ops)"
  unfolding keeps_def
proof
  fix s :: "'a agent"
  have "stops (snd (summarize_history ops s)) = stops s"
    by (rule keepsD [OF keeps_summarize_history])
  then show "stops (snd (summarize_check ops s)) = stops s"
    by (simp add: summarize_check_def)
qed

lemma keeps_loop_body: "keeps stops (loop_body ops)"
  unfolding loop_body_def
  by (intro keeps_bnd keeps_step_actions keeps_summarize_check)

lemma run_loop_stops: "stops (snd (run_loop ops n k s)) = stops s"
proof (induction ops n k s rule: run_loop.induct)
  case (1 ops num_steps steps_completed s)
  show ?case
  proof (cases "running s \<and> steps_completed < num_steps")
    case False
    then show ?thesis by (simp add: run_loop_done)
  next
    case True
    obtain r s1 where b: "loop_body ops s = (r, s1)" by (cases "loop_body ops s")
    from keepsD [OF keeps_loop_body, of ops s] b have k: "stops s1 = stops s" by simp
    show ?thesis
    proof (cases r)
      case (Inl e)
      with True b k show ?thesis by (simp add: run_loop_step)
    next
      case (Inr u)
      with "1.IH" [OF True b [symmetric]] True b k show ?thesis
        by (simp add: run_loop_step)
    qed
  qed
qed

lemma keeps_run: "keeps stops (run ops n)"
proof -
  have "keeps stops (\<lambda>s::'a agent. (Inr () :: pyexc + unit, s\<lparr>running := True\<rparr>))"
    by (simp add: keeps_def stops_def)
  moreover have "keeps stops (send_initial_observation ops)"
    unfolding send_initial_observation_def
    by (intro keeps_bnd keeps_collab_call keeps_append_history) simp
  moreover have "keeps stops (run_loop ops n 0)"
    by (simp add: keeps_def run_loop_stops)
  ultimately show ?thesis
    unfolding run_def run_start_def
    by (intro keeps_bnd keeps_collab_call) simp_all
qed

lemma stop_eq:
  "stop ops s =
     (fst (emu_stop ops (world s)),
      s\<lparr>running := False, world := snd (emu_stop ops (world s)), calls := calls s @ [EmuStop]\<rparr>)"
  by (simp add: stop_def bnd_def collab_call_eq)

lemma main_stops: "stops (snd (main ops n w)) = 1"
proof -
  obtain r s1 where r: "run ops n (init_agent w) = (r, s1)" by (cases "run ops n (init_agent w)")
  from keepsD [OF keeps_run, of ops n "init_agent w"] r have "stops s1 = 0"
    by (simp add: stops_def init_agent_def)
  with r show ?thesis
    by (cases r; cases "fst (emu_stop ops (world s1))")
       (auto simp: main_def stop_eq stops_def split: pyexc.splits)
qed

text \<open>
  C3, the claim as stated. It says that two calls of \<open>stop()\<close> in succession call the
  emulator's teardown at most once. On an emulator whose teardown returns, the two
  calls return and the teardown has been called twice.
\<close>

theorem stop_twice_counterexample:
  "stops (snd (stop_twice (fake_collaborators backend_down) (init_agent ()))) = 2
   \<and> fst (stop_twice (fake_collaborators backend_down) (init_agent ())) = Inr ()"
  by (simp add: stop_twice_def bnd_def stop_eq stops_def fake_collaborators_def ret_def
      init_agent_def)

text \<open>
  C3, as amended. \<open>stop\<close> has no guard: every call sets \<open>running\<close> to \<open>False\<close> and
  calls the emulator's teardown once, and raises exactly when the teardown does. Two
  calls in succession, when the first returns, call the teardown twice, the second
  raising exactly when the emulator's second teardown does. \<open>main\<close> calls \<open>stop\<close>
  once, in its \<open>finally\<close> block, and nothing in \<open>run\<close> calls the teardown: a run of
  the program calls the teardown exactly once, whether \<open>run\<close> returns or raises.
\<close>

theorem stop_calls_teardown_each_time:
  "fst (stop ops s) = fst (emu_stop ops (world s))
   \<and> running (snd (stop ops s)) = False
   \<and> calls (snd (stop ops s)) = calls s @ [EmuStop]
   \<and> (fst (emu_stop ops (world s)) = Inr () \<longrightarrow>
        calls (snd (stop_twice ops s)) = calls s @ [EmuStop, EmuStop]
        \<and> stops (snd (stop_twice ops s)) = stops s + 2
        \<and> fst (stop_twice ops s) = fst (emu_stop ops (snd (emu_stop ops (world s)))))
   \<and> stops (snd (main ops n w)) = 1"
  by (auto simp: stop_eq stop_twice_def bnd_def stops_def main_stops [unfolded stops_def])

theorem stop_calls_teardown_each_time_witness:
  "fst (emu_stop (fake_collaborators backend_down) (world (init_agent ()))) = Inr ()
   \<and> calls (snd (stop_twice (fake_collaborators backend_down) (init_agent ())))
       = [EmuStop, EmuStop]
   \<and> stops (snd (main (fake_collaborators backend_down) 3 ())) = 1"
proof -
  have h: "fst (emu_stop (fake_collaborators backend_down) (world (init_agent ()))) = Inr ()"
    by (simp add: fake_collaborators_def ret_def)
  from stop_calls_teardown_each_time [where ops = "fake_collaborators backend_down"
      and s = "init_agent ()" and n = 3 and w = "()"] h
  show ?thesis by (simp add: init_agent_def)
qed

end
